theory Spec2Isabelle
  imports Main "HOL-Library.Sublist"
begin

section \<open>Values, errors and strings\<close>

text \<open>
  The library is one TypeScript class, \<open>BullhornBridge\<close>, that talks to the parent frame
  through the post-robot transport. Values that cross the transport are JSON-like.
  A JavaScript string is modelled as a \<open>string\<close> (one \<open>char\<close> per code unit, which covers
  the Latin-1 range; origins, URLs and parameter names are ASCII). Numbers are only ever
  passed through by the code modelled here, so their carrier is immaterial.
  An object is its list of own enumerable properties in enumeration order.
\<close>

datatype json =
    JUndefined
  | JNull
  | JBool bool
  | JNum int
  | JStr string
  | JArr "json list"
  | JObj "(string \<times> json) list"

text \<open>\<open>Error m\<close> is \<open>new Error(m)\<close>; \<open>TypeError m\<close> is raised by the runtime.\<close>

datatype error = Error string | TypeError string

text \<open>\<open>s.startsWith(p)\<close> and \<open>s.includes(sub)\<close> (written \<open>str_includes\<close>).\<close>

definition startsWith :: "string \<Rightarrow> string \<Rightarrow> bool" where
  "startsWith s p = prefix p s"

fun str_includes :: "string \<Rightarrow> string \<Rightarrow> bool" where
  "str_includes [] sub = (sub = [])"
| "str_includes (c # cs) sub = (prefix sub (c # cs) \<or> str_includes cs sub)"

text \<open>\<open>s.toLowerCase()\<close> on the ASCII letters.\<close>

definition lowerChar :: "char \<Rightarrow> char" where
  "lowerChar c =
     (case map_of (zip ''ABCDEFGHIJKLMNOPQRSTUVWXYZ'' ''abcdefghijklmnopqrstuvwxyz'') c of
        Some l \<Rightarrow> l | None \<Rightarrow> c)"

definition toLowerCase :: "string \<Rightarrow> string" where
  "toLowerCase s = map lowerChar s"

text \<open>
  JavaScript truthiness of a \<open>string | null | undefined\<close>: only a non-empty string is
  truthy. \<open>a || b\<close> on such values.
\<close>

definition truthy :: "string option \<Rightarrow> bool" where
  "truthy v = (case v of None \<Rightarrow> False | Some x \<Rightarrow> x \<noteq> [])"

definition js_or :: "string option \<Rightarrow> string option \<Rightarrow> string option" where
  "js_or a b = (if truthy a then a else b)"

section \<open>The environment of a session\<close>

text \<open>
  What the class reads from the browser. \<open>frame\<close> is the outcome of the probe
  \<open>typeof window !== 'undefined' && window.parent !== window\<close>: there is no window, or
  reading \<open>window.parent\<close> throws, or the page is its own parent, or it is framed.
  \<open>searchParams\<close> and \<open>hashParams\<close> are the entries of
  \<open>new URLSearchParams(window.location.search)\<close> and of
  \<open>new URLSearchParams(window.location.hash.substring(1))\<close>; \<open>urlProtocol u\<close> is
  \<open>new URL(u).protocol\<close>, \<open>None\<close> when the constructor throws; \<open>importOk\<close> tells whether
  \<open>initializePostRobot\<close>, awaited by \<open>performRegistration\<close>, loads the library, that is
  whether \<open>import('post-robot')\<close> resolves. \<open>transport k\<close> is how the \<open>k\<close>-th \<open>sendToParent\<close>
  of the session settles, counting from 0 (every send carries a timeout, so every send
  settles): \<open>Resolved d\<close> when it resolves with a response whose \<open>data\<close> is \<open>d\<close>,
  \<open>Rejected err\<close> when it rejects. \<open>jsonStringify\<close> is \<open>JSON.stringify\<close>, \<open>None\<close> where it
  returns \<open>undefined\<close>.
\<close>

datatype frame_probe = NoWindow | ParentThrows | TopLevel | InFrame

datatype reply = Resolved json | Rejected error

record env =
  frame :: frame_probe
  locationHref :: string
  searchParams :: "(string \<times> string) list"
  hashParams :: "(string \<times> string) list"
  urlProtocol :: "string \<Rightarrow> string option"
  importOk :: bool
  transport :: "nat \<Rightarrow> reply"
  jsonStringify :: "json \<Rightarrow> string option"

section \<open>The session\<close>

record BullhornConfig =
  title :: "string option"
  color :: "string option"
  url :: "string option"

record BullhornCredentials =
  corporationId :: "string option"
  privateLabelId :: "string option"
  userId :: "string option"
  restUrl :: "string option"
  restToken :: "string option"

text \<open>A callback is known by its identity only; calling it is recorded in the trace.\<close>

type_synonym callback = nat

record BullhornBridgeConfig =
  cfg_debug :: "bool option"
  cfg_onReady :: "callback option"
  cfg_onError :: "callback option"
  cfg_allowedOrigins :: "string list option"

record message =
  msg_name :: string
  msg_payload :: json
  msg_timeout :: nat
  msg_domain :: "string list option"

datatype evdata = NoData | ErrData error | JsonData json

text \<open>
  What a session does to the outside: a message handed to \<open>sendToParent\<close>, a
  subscription made with \<open>postRobot.on\<close>, a call of \<open>emit\<close>, and a call of an application
  callback (the \<open>onReady\<close>/\<open>onError\<close> callbacks and the listeners added with \<open>on\<close>).
  Application callbacks are taken to return normally and not to call into the session
  while they run. \<open>this.log\<close> only writes to the console and is left out.
\<close>

datatype obs =
    Sent message
  | Subscribed string "string list"
  | Emitted string evdata
  | Called callback evdata

text \<open>
  \<open>registrationPromise\<close> holds the promise returned by \<open>performRegistration\<close>. While it is
  pending, the activation of \<open>performRegistration\<close> that will settle it is suspended at
  one of its three \<open>await\<close>s, with the \<open>config\<close> it was called with; the model keeps
  both with the pending promise.
\<close>

datatype phase = Importing | AwaitingReply | Backoff

datatype promise =
    Pending phase "BullhornConfig option"
  | Fulfilled
  | RejectedWith error

record session =
  postRobot :: bool
  isRegistered :: bool
  registrationPromise :: "promise option"
  registrationAttempts :: nat
  credentials :: BullhornCredentials
  debug :: bool
  onReadyCallback :: "callback option"
  onErrorCallback :: "callback option"
  eventListeners :: "string \<rightharpoonup> callback list"
  allowedOrigins :: "string list"
  trace :: "obs list"

definition maxRegistrationAttempts :: nat where
  "maxRegistrationAttempts = 4"

definition waitTime :: nat where
  "waitTime = 500"

definition MAX_PARAM_LENGTH :: nat where
  "MAX_PARAM_LENGTH = 500"

definition MAX_URL_LENGTH :: nat where
  "MAX_URL_LENGTH = 2000"

definition isInIframe :: "env \<Rightarrow> bool" where
  "isInIframe e = (frame e = InFrame)"

definition isReady :: "session \<Rightarrow> bool" where
  "isReady s = isRegistered s"

text \<open>The messages handed to the transport so far, oldest first.\<close>

fun sent :: "obs list \<Rightarrow> message list" where
  "sent [] = []"
| "sent (Sent m # os) = m # sent os"
| "sent (_ # os) = sent os"

section \<open>Validation of a relative URL\<close>

definition allowedPrefixes :: "string list" where
  "allowedPrefixes =
     [''/entity/'', ''/query/'', ''/search/'', ''/meta/'', ''/services/'', ''/find/'']"

definition validateRelativeUrl :: "string \<Rightarrow> bool" where
  "validateRelativeUrl u =
     (if str_includes u ''..'' \<or> str_includes u ''//'' then False
      else if \<not> startsWith u ''/'' then False
      else if length u > MAX_URL_LENGTH then False
      else list_ex (startsWith u) allowedPrefixes)"

section \<open>Origin validation\<close>

text \<open>
  \<open>isAllowedOrigin\<close> builds a regular expression from a pattern that contains \<open>*\<close>:
  \<open>allowed.replace(/\*/g, '.*')\<close>, then \<open>new RegExp(`^${pattern}$`).test(origin)\<close>.
  \<open>regexTest\<close> is the platform's \<open>RegExp\<close> on the sources this can produce from a pattern
  made of \<open>*\<close>, \<open>.\<close> and characters that are no regular-expression syntax: the source
  is \<open>^\<close>, then atoms, then \<open>$\<close>; \<open>.*\<close> matches any run of characters other than line
  terminators, a lone \<open>.\<close> matches one such character, any other character matches
  itself. On any other source the model gives no verdict (\<open>None\<close>).
\<close>

datatype atom = Lit char | AnyChar | AnyStar

definition lineTerminator :: "char \<Rightarrow> bool" where
  "lineTerminator c = (c = CHR 0x0A \<or> c = CHR 0x0D)"

definition syntaxCharacter :: "char \<Rightarrow> bool" where
  "syntaxCharacter c =
     (c \<in> set [CHR 0x5C, CHR ''^'', CHR ''$'', CHR ''+'', CHR ''?'', CHR ''('', CHR '')'',
                CHR ''['', CHR '']'', CHR ''{'', CHR ''}'', CHR ''|'', CHR ''*'', CHR ''.''])"

fun parseAtoms :: "string \<Rightarrow> atom list option" where
  "parseAtoms [] = Some []"
| "parseAtoms [c] =
     (if c = CHR ''.'' then Some [AnyChar]
      else if syntaxCharacter c then None
      else Some [Lit c])"
| "parseAtoms (c # d # ds) =
     (if c = CHR ''.'' \<and> d = CHR ''*'' then map_option (Cons AnyStar) (parseAtoms ds)
      else if c = CHR ''.'' then map_option (Cons AnyChar) (parseAtoms (d # ds))
      else if syntaxCharacter c then None
      else map_option (Cons (Lit c)) (parseAtoms (d # ds)))"

fun matchAtoms :: "atom list \<Rightarrow> string \<Rightarrow> bool" where
  "matchAtoms [] s = (s = [])"
| "matchAtoms (Lit c # as) [] = False"
| "matchAtoms (Lit c # as) (x # xs) = (x = c \<and> matchAtoms as xs)"
| "matchAtoms (AnyChar # as) [] = False"
| "matchAtoms (AnyChar # as) (x # xs) = (\<not> lineTerminator x \<and> matchAtoms as xs)"
| "matchAtoms (AnyStar # as) [] = matchAtoms as []"
| "matchAtoms (AnyStar # as) (x # xs) =
     (matchAtoms as (x # xs) \<or> (\<not> lineTerminator x \<and> matchAtoms (AnyStar # as) xs))"

definition regexTest :: "string \<Rightarrow> string \<Rightarrow> bool option" where
  "regexTest src s =
     (case src of
        [] \<Rightarrow> None
      | c # body \<Rightarrow>
          if c = CHR ''^'' \<and> body \<noteq> [] \<and> last body = CHR ''$''
          then map_option (\<lambda>as. matchAtoms as s) (parseAtoms (butlast body))
          else None)"

text \<open>\<open>allowed.replace(/\*/g, '.*')\<close>.\<close>

definition replaceStars :: "string \<Rightarrow> string" where
  "replaceStars allowed = concat (map (\<lambda>c. if c = CHR ''*'' then ''.*'' else [c]) allowed)"

text \<open>The callback of \<open>some\<close>, and \<open>some\<close> itself: left to right, stopping at the first hit.\<close>

definition allowedBy :: "string \<Rightarrow> string \<Rightarrow> bool option" where
  "allowedBy origin allowed =
     (if str_includes allowed ''*''
      then regexTest (''^'' @ replaceStars allowed @ ''$'') origin
      else Some (origin = allowed))"

fun someAllowed :: "string \<Rightarrow> string list \<Rightarrow> bool option" where
  "someAllowed origin [] = Some False"
| "someAllowed origin (a # as) =
     (case allowedBy origin a of
        None \<Rightarrow> None
      | Some True \<Rightarrow> Some True
      | Some False \<Rightarrow> someAllowed origin as)"

definition isAllowedOrigin :: "session \<Rightarrow> string \<Rightarrow> bool option" where
  "isAllowedOrigin s origin = someAllowed origin (allowedOrigins s)"

text \<open>
  The matching the specification describes, written from its words for comparison: a
  pattern is matched against the whole origin, each \<open>*\<close> stands for any substring, and
  every other character of the pattern stands for itself only.
\<close>

fun wildcardMatch :: "string \<Rightarrow> string \<Rightarrow> bool" where
  "wildcardMatch [] s = (s = [])"
| "wildcardMatch (p # ps) [] = (p = CHR ''*'' \<and> wildcardMatch ps [])"
| "wildcardMatch (p # ps) (x # xs) =
     (if p = CHR ''*'' then wildcardMatch ps (x # xs) \<or> wildcardMatch (p # ps) xs
      else p = x \<and> wildcardMatch ps xs)"

definition specAllowedOrigin :: "string list \<Rightarrow> string \<Rightarrow> bool" where
  "specAllowedOrigin patterns origin =
     list_ex (\<lambda>p. origin = p \<or> (str_includes p ''*'' \<and> wildcardMatch p origin)) patterns"

section \<open>Sanitizing inbound event data\<close>

definition stripMarkup :: "string \<Rightarrow> string" where
  "stripMarkup s = filter (\<lambda>c. c \<notin> set [CHR ''<'', CHR ''>'', CHR 0x22, CHR 0x27]) s"

text \<open>The decimal numeral of an array index, as \<open>for...in\<close> yields it.\<close>

definition digit :: "nat \<Rightarrow> char" where
  "digit n = ''0123456789'' ! (n mod 10)"

fun decimal :: "nat \<Rightarrow> string" where
  "decimal n = (if n < 10 then [digit n] else decimal (n div 10) @ [digit n])"

text \<open>
  \<open>sanitizeEventData\<close> copies the own enumerable properties of any non-null object, an
  array included, into a fresh plain object \<open>{}\<close>. \<open>sanitizeOwn\<close> is the \<open>for...in\<close> loop
  over the properties of an object, \<open>sanitizeIndexed\<close> the same loop over the elements
  of an array, whose keys are the indices. Two properties of the loop show on JSON
  input: \<open>data.hasOwnProperty(key)\<close> calls whatever own property \<open>hasOwnProperty\<close> the
  data has, which is never a function in a message, so the call raises; and an
  assignment to the key \<open>__proto__\<close> of the fresh object sets its prototype and creates
  no own property.
\<close>

fun sanitizeEventData :: "json \<Rightarrow> error + json"
  and sanitizeOwn :: "(string \<times> json) list \<Rightarrow> error + (string \<times> json) list"
  and sanitizeIndexed :: "nat \<Rightarrow> json list \<Rightarrow> error + (string \<times> json) list"
where
  "sanitizeEventData (JStr s) = Inr (JStr (stripMarkup s))"
| "sanitizeEventData (JObj kvs) =
     (if kvs \<noteq> [] \<and> ''hasOwnProperty'' \<in> set (map fst kvs)
      then Inl (TypeError ''data.hasOwnProperty is not a function'')
      else case sanitizeOwn kvs of Inl e \<Rightarrow> Inl e | Inr kvs' \<Rightarrow> Inr (JObj kvs'))"
| "sanitizeEventData (JArr vs) =
     (case sanitizeIndexed 0 vs of Inl e \<Rightarrow> Inl e | Inr kvs' \<Rightarrow> Inr (JObj kvs'))"
| "sanitizeEventData JUndefined = Inr JUndefined"
| "sanitizeEventData JNull = Inr JNull"
| "sanitizeEventData (JBool b) = Inr (JBool b)"
| "sanitizeEventData (JNum n) = Inr (JNum n)"
| "sanitizeOwn [] = Inr []"
| "sanitizeOwn (kv # kvs) =
     (case sanitizeEventData (snd kv) of
        Inl e \<Rightarrow> Inl e
      | Inr v' \<Rightarrow>
          (case sanitizeOwn kvs of
             Inl e \<Rightarrow> Inl e
           | Inr r \<Rightarrow> Inr (if fst kv = ''__proto__'' then r else (fst kv, v') # r)))"
| "sanitizeIndexed i [] = Inr []"
| "sanitizeIndexed i (v # vs) =
     (case sanitizeEventData v of
        Inl e \<Rightarrow> Inl e
      | Inr v' \<Rightarrow>
          (case sanitizeIndexed (Suc i) vs of
             Inl e \<Rightarrow> Inl e
           | Inr r \<Rightarrow> Inr ((decimal i, v') # r)))"

section \<open>The local listener registry\<close>

definition on :: "string \<Rightarrow> callback \<Rightarrow> session \<Rightarrow> session" where
  "on ev cb s =
     (let ls = (case eventListeners s ev of None \<Rightarrow> [] | Some l \<Rightarrow> l)
      in s\<lparr>eventListeners := (eventListeners s)(ev \<mapsto> ls @ [cb])\<rparr>)"

definition off :: "string \<Rightarrow> callback \<Rightarrow> session \<Rightarrow> session" where
  "off ev cb s =
     (case eventListeners s ev of
        None \<Rightarrow> s
      | Some l \<Rightarrow> s\<lparr>eventListeners := (eventListeners s)(ev \<mapsto> remove1 cb l)\<rparr>)"

definition emit :: "string \<Rightarrow> evdata \<Rightarrow> session \<Rightarrow> session" where
  "emit ev d s =
     (let ls = (case eventListeners s ev of None \<Rightarrow> [] | Some l \<Rightarrow> l)
      in s\<lparr>trace := trace s @ Emitted ev d # map (\<lambda>cb. Called cb d) ls\<rparr>)"

section \<open>Credentials from the page URL\<close>

definition validateParam :: "string option \<Rightarrow> string option" where
  "validateParam v =
     (case v of
        None \<Rightarrow> None
      | Some x \<Rightarrow>
          if x = [] then None
          else if length x > MAX_PARAM_LENGTH then None
          else Some (filter (\<lambda>c. c \<notin> set [CHR ''<'', CHR ''>'', CHR 0x22, CHR 0x27, CHR ''&'']) x))"

definition validateUrl :: "env \<Rightarrow> string option \<Rightarrow> string option" where
  "validateUrl e v =
     (case v of
        None \<Rightarrow> None
      | Some x \<Rightarrow>
          if x = [] then None
          else (case urlProtocol e x of
                  None \<Rightarrow> None
                | Some p \<Rightarrow> if p \<noteq> ''https:'' then None else Some x))"

text \<open>The character class \<open>[A-Za-z0-9\-_.~]\<close>.\<close>

definition tokenChar :: "char \<Rightarrow> bool" where
  "tokenChar c =
     (c \<in> set ''ABCDEFGHIJKLMNOPQRSTUVWXYZabcdefghijklmnopqrstuvwxyz0123456789-_.~'')"

definition validateToken :: "string option \<Rightarrow> string option" where
  "validateToken v =
     (case v of
        None \<Rightarrow> None
      | Some x \<Rightarrow>
          if x = [] then None
          else if \<not> list_all tokenChar x \<or> length x > MAX_PARAM_LENGTH then None
          else Some x)"

text \<open>
  \<open>hashParams.get(key) || hashParams.get(key.toLowerCase())\<close>; \<open>get\<close> returns the first
  value stored under a name.
\<close>

definition fromHash :: "(string \<times> string) list \<Rightarrow> string \<Rightarrow> string option" where
  "fromHash h key = js_or (map_of h key) (map_of h (toLowerCase key))"

text \<open>
  The object literal built from the query string, then the loop over
  \<open>Object.keys(this.credentials)\<close>, which visits the five fields in the order of the
  literal and fills from the fragment each field that is still falsy.
\<close>

definition fromQuery :: "env \<Rightarrow> BullhornCredentials" where
  "fromQuery e =
     (let q = map_of (searchParams e) in
      \<lparr> corporationId = validateParam (js_or (q ''corporationId'') (q ''corp'')),
        privateLabelId = validateParam (js_or (q ''privateLabelId'') (q ''plid'')),
        userId = validateParam (js_or (q ''userId'') (q ''uid'')),
        restUrl = validateUrl e (q ''restUrl''),
        restToken = validateToken (js_or (q ''BhRestToken'') (q ''restToken'')) \<rparr>)"

definition fillFromHash :: "env \<Rightarrow> BullhornCredentials \<Rightarrow> BullhornCredentials" where
  "fillFromHash e c0 =
     (let h = hashParams e;
          c1 = (if \<not> truthy (corporationId c0)
                then c0\<lparr>corporationId := validateParam (fromHash h ''corporationId'')\<rparr> else c0);
          c2 = (if \<not> truthy (privateLabelId c1)
                then c1\<lparr>privateLabelId := validateParam (fromHash h ''privateLabelId'')\<rparr> else c1);
          c3 = (if \<not> truthy (userId c2)
                then c2\<lparr>userId := validateParam (fromHash h ''userId'')\<rparr> else c2);
          c4 = (if \<not> truthy (restUrl c3)
                then c3\<lparr>restUrl := validateUrl e (fromHash h ''restUrl'')\<rparr> else c3);
          c5 = (if \<not> truthy (restToken c4)
                then c4\<lparr>restToken := validateToken (fromHash h ''restToken'')\<rparr> else c4)
      in c5)"

definition extractCredentialsFromUrl :: "env \<Rightarrow> session \<Rightarrow> session" where
  "extractCredentialsFromUrl e s =
     (if frame e = NoWindow then s
      else s\<lparr>credentials := fillFromHash e (fromQuery e)\<rparr>)"

definition getCredentials :: "session \<Rightarrow> BullhornCredentials" where
  "getCredentials s = credentials s"

section \<open>Construction and the default instance\<close>

definition defaultOrigins :: "string list" where
  "defaultOrigins = [''https://*.bullhornstaffing.com'', ''https://*.bullhorn.com'']"

text \<open>
  The constructor starts \<open>initializePostRobot\<close> without awaiting it, so the library is
  not yet loaded when the constructor returns.
\<close>

definition new_BullhornBridge :: "env \<Rightarrow> BullhornBridgeConfig option \<Rightarrow> session" where
  "new_BullhornBridge e config =
     (let s = \<lparr> postRobot = False,
                isRegistered = False,
                registrationPromise = None,
                registrationAttempts = 0,
                credentials = \<lparr> corporationId = None, privateLabelId = None, userId = None,
                                restUrl = None, restToken = None \<rparr>,
                debug = (case Option.bind config cfg_debug of None \<Rightarrow> False | Some b \<Rightarrow> b),
                onReadyCallback = Option.bind config cfg_onReady,
                onErrorCallback = Option.bind config cfg_onError,
                eventListeners = Map.empty,
                allowedOrigins =
                  (case Option.bind config cfg_allowedOrigins of
                     None \<Rightarrow> defaultOrigins
                   | Some l \<Rightarrow> l),
                trace = [] \<rparr>
      in if isInIframe e then extractCredentialsFromUrl e s else s)"

text \<open>
  The module keeps \<open>defaultInstance\<close>, a reference or \<open>null\<close>. Objects live in a store
  and are known by their address, so that two references can be compared.
\<close>

record module_state =
  instances :: "session list"
  defaultInstance :: "nat option"

definition getBullhornBridge ::
  "env \<Rightarrow> BullhornBridgeConfig option \<Rightarrow> module_state \<Rightarrow> nat \<times> module_state" where
  "getBullhornBridge e config st =
     (case defaultInstance st of
        None \<Rightarrow>
          (let r = length (instances st)
           in (r, st\<lparr>instances := instances st @ [new_BullhornBridge e config],
                     defaultInstance := Some r\<rparr>))
      | Some r \<Rightarrow> (r, st))"

text \<open>A sequence of calls of the accessor, each with its own argument.\<close>

fun getBullhornBridge_calls ::
  "(env \<times> BullhornBridgeConfig option) list \<Rightarrow> module_state \<Rightarrow> nat list \<times> module_state" where
  "getBullhornBridge_calls [] st = ([], st)"
| "getBullhornBridge_calls (c # cs) st =
     (let (r, st1) = getBullhornBridge (fst c) (snd c) st;
          (rs, st2) = getBullhornBridge_calls cs st1
      in (r # rs, st2))"

section \<open>Registration\<close>

text \<open>\<open>v || d\<close> for an optional string \<open>v\<close> and a default \<open>d\<close>.\<close>

definition orDefault :: "string option \<Rightarrow> string \<Rightarrow> string" where
  "orDefault v d = (case v of None \<Rightarrow> d | Some x \<Rightarrow> if x = [] then d else x)"

definition registrationConfig :: "env \<Rightarrow> BullhornConfig option \<Rightarrow> json" where
  "registrationConfig e config =
     JObj [(''title'', JStr (orDefault (Option.bind config title) ''Custom Integration'')),
           (''url'', JStr (orDefault (Option.bind config url)
                            (if frame e \<noteq> NoWindow then locationHref e else []))),
           (''color'', JStr (orDefault (Option.bind config color) ''#0070c0''))]"

definition registerMessage :: "env \<Rightarrow> BullhornConfig option \<Rightarrow> message" where
  "registerMessage e config =
     \<lparr> msg_name = ''register'', msg_payload = registrationConfig e config,
       msg_timeout = 5000, msg_domain = None \<rparr>"

definition setupEventListeners :: "session \<Rightarrow> session" where
  "setupEventListeners s =
     (if \<not> postRobot s then s
      else s\<lparr>trace := trace s @ [Subscribed ''customEvent'' (allowedOrigins s),
                                  Subscribed ''update'' (allowedOrigins s)]\<rparr>)"

text \<open>
  \<open>performRegistration\<close> is an \<open>async\<close> function with three \<open>await\<close>s: the load of the
  library, the reply to the \<open>register\<close> message, and the back-off timer before the
  recursive call. Each definition below is the code that runs from one suspension to
  the next; it returns the state of the promise at the next suspension together with
  the session. \<open>performRegistration\<close> is the entry, up to its first \<open>await\<close>.
\<close>

definition sendRegister :: "env \<Rightarrow> BullhornConfig option \<Rightarrow> session \<Rightarrow> promise \<times> session" where
  "sendRegister e config s =
     (if \<not> postRobot s
      then (RejectedWith (Error ''Failed to initialize communication library''), s)
      else (Pending AwaitingReply config,
            s\<lparr>trace := trace s @ [Sent (registerMessage e config)]\<rparr>))"

definition performRegistration ::
  "env \<Rightarrow> BullhornConfig option \<Rightarrow> session \<Rightarrow> promise \<times> session" where
  "performRegistration e config s =
     (if \<not> postRobot s then (Pending Importing config, s)
      else sendRegister e config s)"

text \<open>After \<open>await this.initializePostRobot()\<close>: the import resolved or failed.\<close>

definition afterImport :: "env \<Rightarrow> BullhornConfig option \<Rightarrow> session \<Rightarrow> promise \<times> session" where
  "afterImport e config s =
     (if importOk e then sendRegister e config (s\<lparr>postRobot := True\<rparr>)
      else (RejectedWith (Error ''Failed to initialize communication library''), s))"

text \<open>After \<open>await this.postRobot.sendToParent('register', ...)\<close>: the \<open>try\<close> and the \<open>catch\<close>.\<close>

definition afterReply ::
  "env \<Rightarrow> BullhornConfig option \<Rightarrow> reply \<Rightarrow> session \<Rightarrow> promise \<times> session" where
  "afterReply e config r s =
     (case r of
        Resolved response \<Rightarrow>
          (let s1 = s\<lparr>isRegistered := True\<rparr>;
               s2 = setupEventListeners s1;
               s3 = (case onReadyCallback s2 of
                       None \<Rightarrow> s2
                     | Some cb \<Rightarrow> s2\<lparr>trace := trace s2 @ [Called cb NoData]\<rparr>)
           in (Fulfilled, emit ''ready'' NoData s3))
      | Rejected failure \<Rightarrow>
          if registrationAttempts s < maxRegistrationAttempts
          then (Pending Backoff config, s\<lparr>registrationAttempts := registrationAttempts s + 1\<rparr>)
          else
            (let err = Error ''Failed to register with Bullhorn after maximum attempts'';
                 s1 = (case onErrorCallback s of
                         None \<Rightarrow> s
                       | Some cb \<Rightarrow> s\<lparr>trace := trace s @ [Called cb (ErrData err)]\<rparr>)
             in (RejectedWith err, emit ''error'' (ErrData err) s1)))"

text \<open>
  One turn of the event loop for a session whose registration is pending: the event
  the suspended activation waits for arrives and the activation runs to its next
  suspension or to its end. The message in flight is the last one sent. After the
  back-off the activation calls \<open>performRegistration\<close> again and takes over the
  outcome of that call, so the promise held in \<open>registrationPromise\<close> follows it.
\<close>

definition resume :: "env \<Rightarrow> session \<Rightarrow> session" where
  "resume e s =
     (case registrationPromise s of
        Some (Pending ph config) \<Rightarrow>
          (let (p, s') =
                 (case ph of
                    Importing \<Rightarrow> afterImport e config s
                  | AwaitingReply \<Rightarrow>
                      afterReply e config (transport e (length (sent (trace s)) - 1)) s
                  | Backoff \<Rightarrow> performRegistration e config s)
           in s'\<lparr>registrationPromise := Some p\<rparr>)
      | _ \<Rightarrow> s)"

text \<open>What is left of a pending registration, at most: the measure of the event loop.\<close>

definition rank :: "phase \<Rightarrow> nat" where
  "rank ph = (case ph of Backoff \<Rightarrow> 2 | Importing \<Rightarrow> 1 | AwaitingReply \<Rightarrow> 0)"

definition remaining :: "session \<Rightarrow> nat" where
  "remaining s =
     (case registrationPromise s of
        Some (Pending ph config) \<Rightarrow>
          1 + 3 * (maxRegistrationAttempts - registrationAttempts s) + rank ph
      | _ \<Rightarrow> 0)"

text \<open>
  \<open>await this.registrationPromise\<close> in a run where nothing else is going on: the event
  loop turns until the promise is settled.
\<close>

function run_registration :: "env \<Rightarrow> session \<Rightarrow> session" where
  "run_registration e s =
     (case registrationPromise s of
        Some (Pending ph config) \<Rightarrow> run_registration e (resume e s)
      | _ \<Rightarrow> s)"
  by pat_completeness auto
termination
proof (relation "measure (\<lambda>(e, s). remaining s)")
  show "wf (measure (\<lambda>(e, s). remaining s))"
    by simp
next
  fix e :: env and s :: session and p ph config
  assume "registrationPromise s = Some p" and "p = Pending ph config"
  then have pending: "registrationPromise s = Some (Pending ph config)"
    by simp
  have "remaining (resume e s) < remaining s"
  proof (cases ph)
    case Importing
    with pending show ?thesis
      by (simp add: resume_def remaining_def rank_def afterImport_def sendRegister_def)
  next
    case AwaitingReply
    show ?thesis
    proof (cases "transport e (length (sent (trace s)) - 1)")
      case (Resolved response)
      with pending AwaitingReply show ?thesis
        by (simp add: resume_def remaining_def afterReply_def Let_def emit_def)
    next
      case (Rejected failure)
      have "registrationAttempts s < maxRegistrationAttempts \<Longrightarrow>
            2 + 3 * (maxRegistrationAttempts - (registrationAttempts s + 1))
              < 3 * (maxRegistrationAttempts - registrationAttempts s)"
        by arith
      with pending AwaitingReply Rejected show ?thesis
        by (simp add: resume_def remaining_def rank_def afterReply_def Let_def emit_def)
    qed
  next
    case Backoff
    with pending show ?thesis
      by (simp add: resume_def remaining_def rank_def performRegistration_def sendRegister_def)
  qed
  then show "((e, resume e s), (e, s)) \<in> measure (\<lambda>(e, s). remaining s)"
    by simp
qed

declare run_registration.simps [simp del]

text \<open>
  \<open>register\<close> as one caller sees it when no other call is under way: the checks, the
  start of the handshake when there is no promise yet, then the wait for the promise
  and \<open>return this.isRegistered\<close>, or the rejection of the promise rethrown.
\<close>

definition awaitRegistration :: "env \<Rightarrow> session \<Rightarrow> (error + bool) \<times> session" where
  "awaitRegistration e s =
     (let s' = run_registration e s
      in case registrationPromise s' of
           Some (RejectedWith err) \<Rightarrow> (Inl err, s')
         | _ \<Rightarrow> (Inr (isRegistered s'), s'))"

definition register ::
  "env \<Rightarrow> BullhornConfig option \<Rightarrow> session \<Rightarrow> (error + bool) \<times> session" where
  "register e config s =
     (if \<not> isInIframe e then (Inr False, s)
      else if isRegistered s then (Inr True, s)
      else if registrationPromise s \<noteq> None then awaitRegistration e s
      else (let (p, s') = performRegistration e config s
            in awaitRegistration e (s'\<lparr>registrationPromise := Some p\<rparr>)))"

section \<open>Several callers of \<open>register\<close>\<close>

text \<open>
  Calls of \<open>register\<close> interleave at the \<open>await\<close>s only. A machine is the session, the
  calls of \<open>register\<close> suspended at \<open>await this.registrationPromise\<close> in the order in
  which they got there, and the calls that have returned, with what they returned,
  in the order of their return. A call is known by a number.
\<close>

record machine =
  sess :: session
  waiting :: "nat list"
  returned :: "(nat \<times> (error + bool)) list"

text \<open>
  The continuations of \<open>await this.registrationPromise\<close>: once the promise is settled,
  each waiting call resumes, in order, and returns \<open>this.isRegistered\<close> or rethrows.
\<close>

definition wake :: "machine \<Rightarrow> machine" where
  "wake m =
     (case registrationPromise (sess m) of
        Some Fulfilled \<Rightarrow>
          m\<lparr>waiting := [],
            returned := returned m @ map (\<lambda>c. (c, Inr (isRegistered (sess m)))) (waiting m)\<rparr>
      | Some (RejectedWith err) \<Rightarrow>
          m\<lparr>waiting := [], returned := returned m @ map (\<lambda>c. (c, Inl err)) (waiting m)\<rparr>
      | _ \<Rightarrow> m)"

text \<open>A call of \<open>register\<close>, up to its \<open>await\<close> or its \<open>return\<close>.\<close>

definition call_register :: "env \<Rightarrow> nat \<times> BullhornConfig option \<Rightarrow> machine \<Rightarrow> machine" where
  "call_register e call m =
     (if \<not> isInIframe e then m\<lparr>returned := returned m @ [(fst call, Inr False)]\<rparr>
      else if isRegistered (sess m) then m\<lparr>returned := returned m @ [(fst call, Inr True)]\<rparr>
      else if registrationPromise (sess m) \<noteq> None
      then wake (m\<lparr>waiting := waiting m @ [fst call]\<rparr>)
      else (let (p, s') = performRegistration e (snd call) (sess m)
            in wake (m\<lparr>sess := s'\<lparr>registrationPromise := Some p\<rparr>,
                       waiting := waiting m @ [fst call]\<rparr>)))"

definition call_all :: "env \<Rightarrow> (nat \<times> BullhornConfig option) list \<Rightarrow> machine \<Rightarrow> machine" where
  "call_all e calls m = foldl (\<lambda>m c. call_register e c m) m calls"

text \<open>One turn of the event loop of the machine.\<close>

definition deliver :: "env \<Rightarrow> machine \<Rightarrow> machine" where
  "deliver e m = wake (m\<lparr>sess := resume e (sess m)\<rparr>)"

text \<open>
  The event loop with calls arriving while the registration is pending: before each
  turn the next burst of calls is made (a burst may be empty). When the promise is
  settled the calls that have not arrived yet are made.
\<close>

function event_loop ::
  "env \<Rightarrow> (nat \<times> BullhornConfig option) list list \<Rightarrow> machine \<Rightarrow> machine" where
  "event_loop e bursts m =
     (case registrationPromise (sess m) of
        Some (Pending ph config) \<Rightarrow>
          (case bursts of
             [] \<Rightarrow> event_loop e [] (deliver e m)
           | b # bs \<Rightarrow> event_loop e bs (deliver e (call_all e b m)))
      | _ \<Rightarrow> call_all e (concat bursts) m)"
  by pat_completeness auto
termination
proof (relation "measure (\<lambda>(e, bursts, m). remaining (sess m))")
  show "wf (measure (\<lambda>(e, bursts, m). remaining (sess m)))"
    by simp
next
  fix e :: env and bursts :: "(nat \<times> BullhornConfig option) list list"
    and m :: machine and p ph config
  assume "registrationPromise (sess m) = Some p" and "p = Pending ph config"
  then have pending: "registrationPromise (sess m) = Some (Pending ph config)"
    by simp
  have less: "remaining (resume e (sess m)) < remaining (sess m)"
  proof (cases ph)
    case Importing
    with pending show ?thesis
      by (simp add: resume_def remaining_def rank_def afterImport_def sendRegister_def)
  next
    case AwaitingReply
    show ?thesis
    proof (cases "transport e (length (sent (trace (sess m))) - 1)")
      case (Resolved response)
      with pending AwaitingReply show ?thesis
        by (simp add: resume_def remaining_def afterReply_def Let_def emit_def)
    next
      case (Rejected failure)
      have "registrationAttempts (sess m) < maxRegistrationAttempts \<Longrightarrow>
            2 + 3 * (maxRegistrationAttempts - (registrationAttempts (sess m) + 1))
              < 3 * (maxRegistrationAttempts - registrationAttempts (sess m))"
        by arith
      with pending AwaitingReply Rejected show ?thesis
        by (simp add: resume_def remaining_def rank_def afterReply_def Let_def emit_def)
    qed
  next
    case Backoff
    with pending show ?thesis
      by (simp add: resume_def remaining_def rank_def performRegistration_def sendRegister_def)
  qed
  have wake_sess: "sess (wake n) = sess n" for n
    by (simp add: wake_def split: option.split promise.split)
  then show "((e, [], deliver e m), (e, bursts, m))
      \<in> measure (\<lambda>(e, bursts, m). remaining (sess m))"
    using less by (simp add: deliver_def)
  fix b :: "(nat \<times> BullhornConfig option) list" and bs
  have "registrationPromise (sess n) = Some (Pending ph config)
        \<Longrightarrow> sess (call_all e b n) = sess n" for n
  proof (induction b arbitrary: n)
    case Nil
    then show ?case by (simp add: call_all_def)
  next
    case (Cons c cs)
    have "sess (call_register e c n) = sess n"
      using Cons.prems by (simp add: call_register_def wake_sess)
    with Cons show ?case by (simp add: call_all_def)
  qed
  with pending have "sess (call_all e b m) = sess m"
    by simp
  then show "((e, bs, deliver e (call_all e b m)), (e, bursts, m))
      \<in> measure (\<lambda>(e, bursts, m). remaining (sess m))"
    using less wake_sess by (simp add: deliver_def)
qed

declare event_loop.simps [simp del]

section \<open>The event relay\<close>

text \<open>
  The handler that \<open>setupEventListeners\<close> installs for a channel (\<open>customEvent\<close> or
  \<open>update\<close>), applied to a message with its origin and data. It rejects, or it
  emits the sanitized data under the name of the channel and resolves with
  \<open>{received: true}\<close>; an exception of \<open>sanitizeEventData\<close> leaves the handler. Where
  the origin check is outside the modelled regular expressions there is no verdict.
\<close>

definition inbound ::
  "string \<Rightarrow> string \<Rightarrow> json \<Rightarrow> session \<Rightarrow> ((error + json) \<times> session) option" where
  "inbound channel origin data s =
     (case isAllowedOrigin s origin of
        None \<Rightarrow> None
      | Some False \<Rightarrow> Some (Inl (Error ''Unauthorized origin''), s)
      | Some True \<Rightarrow>
          (case sanitizeEventData data of
             Inl err \<Rightarrow> Some (Inl err, s)
           | Inr sanitizedData \<Rightarrow>
               Some (Inr (JObj [(''received'', JBool True)]),
                     emit channel (JsonData sanitizedData) s)))"

section \<open>The request gateway\<close>

definition ensureRegistered :: "env \<Rightarrow> session \<Rightarrow> (error + unit) \<times> session" where
  "ensureRegistered e s =
     (if \<not> isInIframe e then (Inl (Error ''Not running in an iframe''), s)
      else
        (let (r, s1) = (if \<not> isRegistered s then register e None s else (Inr True, s))
         in case r of
              Inl err \<Rightarrow> (Inl err, s1)
            | Inr b \<Rightarrow>
                if \<not> isRegistered s1 then (Inl (Error ''Failed to register with Bullhorn''), s1)
                else (Inr (), s1)))"

text \<open>\<open>await this.postRobot.sendToParent(...)\<close> in a run where nothing else is going on.\<close>

definition sendToParent :: "env \<Rightarrow> message \<Rightarrow> session \<Rightarrow> reply \<times> session" where
  "sendToParent e msg s =
     (transport e (length (sent (trace s))), s\<lparr>trace := trace s @ [Sent msg]\<rparr>)"

definition httpGET :: "env \<Rightarrow> string \<Rightarrow> session \<Rightarrow> (error + json) \<times> session" where
  "httpGET e relativeURL s =
     (case ensureRegistered e s of
        (Inl err, s1) \<Rightarrow> (Inl err, s1)
      | (Inr u, s1) \<Rightarrow>
          if \<not> validateRelativeUrl relativeURL
          then (Inl (Error ''Invalid or unauthorized URL''), s1)
          else if \<not> postRobot s1
          then (Inl (Error ''Communication library not initialized''), s1)
          else
            (case sendToParent e
                    \<lparr> msg_name = ''httpGET'',
                      msg_payload = JObj [(''relativeURL'', JStr relativeURL)],
                      msg_timeout = 10000, msg_domain = Some (allowedOrigins s1) \<rparr> s1 of
               (Resolved data_of_response, s2) \<Rightarrow> (Inr data_of_response, s2)
             | (Rejected failure, s2) \<Rightarrow>
                 (Inl (Error ''Failed to complete GET request''), s2)))"

definition httpPOST :: "env \<Rightarrow> string \<Rightarrow> json \<Rightarrow> session \<Rightarrow> (error + json) \<times> session" where
  "httpPOST e relativeURL data s =
     (case ensureRegistered e s of
        (Inl err, s1) \<Rightarrow> (Inl err, s1)
      | (Inr u, s1) \<Rightarrow>
          if \<not> validateRelativeUrl relativeURL
          then (Inl (Error ''Invalid or unauthorized URL''), s1)
          else
            (case jsonStringify e data of
               None \<Rightarrow> (Inl (TypeError ''Cannot read properties of undefined''), s1)
             | Some dataStr \<Rightarrow>
                 if length dataStr > 1024 * 1024 then (Inl (Error ''Payload too large''), s1)
                 else if \<not> postRobot s1
                 then (Inl (Error ''Communication library not initialized''), s1)
                 else
                   (case sendToParent e
                           \<lparr> msg_name = ''httpPOST'',
                             msg_payload =
                               JObj [(''relativeURL'', JStr relativeURL), (''data'', data)],
                             msg_timeout = 10000,
                             msg_domain = Some (allowedOrigins s1) \<rparr> s1 of
                      (Resolved data_of_response, s2) \<Rightarrow> (Inr data_of_response, s2)
                    | (Rejected failure, s2) \<Rightarrow>
                        (Inl (Error ''Failed to complete POST request''), s2))))"

definition httpPUT :: "env \<Rightarrow> string \<Rightarrow> json \<Rightarrow> session \<Rightarrow> (error + json) \<times> session" where
  "httpPUT e relativeURL data s =
     (case ensureRegistered e s of
        (Inl err, s1) \<Rightarrow> (Inl err, s1)
      | (Inr u, s1) \<Rightarrow>
          if \<not> validateRelativeUrl relativeURL
          then (Inl (Error ''Invalid or unauthorized URL''), s1)
          else
            (case jsonStringify e data of
               None \<Rightarrow> (Inl (TypeError ''Cannot read properties of undefined''), s1)
             | Some dataStr \<Rightarrow>
                 if length dataStr > 1024 * 1024 then (Inl (Error ''Payload too large''), s1)
                 else if \<not> postRobot s1
                 then (Inl (Error ''Communication library not initialized''), s1)
                 else
                   (case sendToParent e
                           \<lparr> msg_name = ''httpPUT'',
                             msg_payload =
                               JObj [(''relativeURL'', JStr relativeURL), (''data'', data)],
                             msg_timeout = 10000,
                             msg_domain = Some (allowedOrigins s1) \<rparr> s1 of
                      (Resolved data_of_response, s2) \<Rightarrow> (Inr data_of_response, s2)
                    | (Rejected failure, s2) \<Rightarrow>
                        (Inl (Error ''Failed to complete PUT request''), s2))))"

definition httpDELETE :: "env \<Rightarrow> string \<Rightarrow> session \<Rightarrow> (error + json) \<times> session" where
  "httpDELETE e relativeURL s =
     (case ensureRegistered e s of
        (Inl err, s1) \<Rightarrow> (Inl err, s1)
      | (Inr u, s1) \<Rightarrow>
          if \<not> validateRelativeUrl relativeURL
          then (Inl (Error ''Invalid or unauthorized URL''), s1)
          else if \<not> postRobot s1
          then (Inl (Error ''Communication library not initialized''), s1)
          else
            (case sendToParent e
                    \<lparr> msg_name = ''httpDELETE'',
                      msg_payload = JObj [(''relativeURL'', JStr relativeURL)],
                      msg_timeout = 10000, msg_domain = Some (allowedOrigins s1) \<rparr> s1 of
               (Resolved data_of_response, s2) \<Rightarrow> (Inr data_of_response, s2)
             | (Rejected failure, s2) \<Rightarrow>
                 (Inl (Error ''Failed to complete DELETE request''), s2)))"

text \<open>The four URL-bearing calls under one name, to state what they share.\<close>

datatype http_call =
    GET string
  | POST string json
  | PUT string json
  | DELETE string

fun relativeURL_of :: "http_call \<Rightarrow> string" where
  "relativeURL_of (GET u) = u"
| "relativeURL_of (POST u d) = u"
| "relativeURL_of (PUT u d) = u"
| "relativeURL_of (DELETE u) = u"

fun perform :: "env \<Rightarrow> http_call \<Rightarrow> session \<Rightarrow> (error + json) \<times> session" where
  "perform e (GET u) s = httpGET e u s"
| "perform e (POST u d) s = httpPOST e u d s"
| "perform e (PUT u d) s = httpPUT e u d s"
| "perform e (DELETE u) s = httpDELETE e u s"

definition httpVerbNames :: "string list" where
  "httpVerbNames = [''httpGET'', ''httpPOST'', ''httpPUT'', ''httpDELETE'']"

section \<open>Vocabulary of the statements\<close>

text \<open>
  The first truthy value stored under one of several names, tried in order; and a
  field resolved from the query string first and from the fragment only when the
  query string leaves it unset.
\<close>

definition firstOf :: "(string \<times> string) list \<Rightarrow> string list \<Rightarrow> string option" where
  "firstOf params names = foldr (\<lambda>n r. js_or (map_of params n) r) names None"

definition queryThenFragment ::
  "(string option \<Rightarrow> string option) \<Rightarrow> string option \<Rightarrow> string option \<Rightarrow> string option" where
  "queryThenFragment validate a b =
     (if truthy (validate a) then validate a else validate b)"

definition aliasNames :: "string list" where
  "aliasNames = [''corp'', ''plid'', ''uid'', ''BhRestToken'']"

text \<open>A page inside a frame, with the entries of its query string and of its fragment.\<close>

abbreviation pageEnv :: "(string \<times> string) list \<Rightarrow> (string \<times> string) list \<Rightarrow> env" where
  "pageEnv q h \<equiv>
     \<lparr> frame = InFrame, locationHref = ''https://app.example.com/tab'',
       searchParams = q, hashParams = h,
       urlProtocol = (\<lambda>u. if startsWith u ''https://'' then Some ''https:'' else None),
       importOk = True, transport = (\<lambda>k. Rejected (Error ''Timeout'')),
       jsonStringify = (\<lambda>d. None) \<rparr>"

text \<open>
  The HTTP-verb messages among the messages of a trace, and the data of the emissions
  of an event in a trace.
\<close>

definition httpMessages :: "obs list \<Rightarrow> message list" where
  "httpMessages tr = filter (\<lambda>m. msg_name m \<in> set httpVerbNames) (sent tr)"

definition emissions :: "string \<Rightarrow> obs list \<Rightarrow> evdata list" where
  "emissions ev tr = concat (map (\<lambda>ob. case ob of Emitted ev' d \<Rightarrow> if ev' = ev then [d] else [] | _ \<Rightarrow> []) tr)"

text \<open>A page inside a frame with no credentials in its URL, over a given transport.\<close>

abbreviation frameEnv :: "(nat \<Rightarrow> reply) \<Rightarrow> env" where
  "frameEnv t \<equiv>
     \<lparr> frame = InFrame, locationHref = ''https://app.example.com/tab'',
       searchParams = [], hashParams = [], urlProtocol = (\<lambda>u. None),
       importOk = True, transport = t, jsonStringify = (\<lambda>d. None) \<rparr>"

text \<open>Transports and pages for the concrete runs.\<close>

abbreviation rejectAll :: "nat \<Rightarrow> reply" where
  "rejectAll \<equiv> (\<lambda>k. Rejected (Error ''Timeout''))"

abbreviation acceptFourth :: "nat \<Rightarrow> reply" where
  "acceptFourth \<equiv>
     (\<lambda>k. if k < 3 then Rejected (Error ''Timeout'')
          else Resolved (JObj [(''success'', JBool True)]))"

abbreviation acceptAll :: "nat \<Rightarrow> reply" where
  "acceptAll \<equiv> (\<lambda>k. Resolved (JObj [(''success'', JBool True)]))"

abbreviation candidateReply :: "nat \<Rightarrow> reply" where
  "candidateReply \<equiv>
     (\<lambda>k. if k = 0 then Resolved (JObj [(''success'', JBool True)])
          else Resolved (JObj [(''data'', JObj [(''id'', JNum 123)]), (''error'', JNull)]))"

abbreviation topEnv :: env where
  "topEnv \<equiv>
     \<lparr> frame = TopLevel, locationHref = ''https://app.example.com/tab'',
       searchParams = [], hashParams = [], urlProtocol = (\<lambda>u. None),
       importOk = True, transport = rejectAll, jsonStringify = (\<lambda>d. None) \<rparr>"

section \<open>The default instance\<close>

lemma getBullhornBridge_existing:
  "defaultInstance st = Some r \<Longrightarrow> getBullhornBridge e c st = (r, st)"
  by (simp add: getBullhornBridge_def)

lemma getBullhornBridge_calls_existing:
  "defaultInstance st = Some r \<Longrightarrow>
   getBullhornBridge_calls cs st = (replicate (length cs) r, st)"
  by (induction cs) (simp_all add: getBullhornBridge_existing)

lemma getBullhornBridge_sets_default:
  "defaultInstance (snd (getBullhornBridge e c st)) = Some (fst (getBullhornBridge e c st))"
  by (simp add: getBullhornBridge_def Let_def split: option.split)

text \<open>
  C10. \<open>getBullhornBridge\<close> returns the same instance on every call, and the argument of
  every call after the first is ignored. For calls \<open>c # cs\<close> made one after the other
  from any state of the module, every call returns the reference that the first call
  returns, and the module is left as the first call alone leaves it. From a module
  that has no default instance yet, that reference is a new object built by the
  constructor from the argument of the first call, whatever the later arguments are.
\<close>

theorem getBullhornBridge_singleton:
  "getBullhornBridge_calls (c # cs) st =
     (replicate (Suc (length cs)) (fst (getBullhornBridge (fst c) (snd c) st)),
      snd (getBullhornBridge (fst c) (snd c) st))
   \<and> getBullhornBridge_calls (c # cs) \<lparr>instances = objs, defaultInstance = None\<rparr> =
     (replicate (Suc (length cs)) (length objs),
      \<lparr>instances = objs @ [new_BullhornBridge (fst c) (snd c)],
       defaultInstance = Some (length objs)\<rparr>)"
proof -
  obtain r st1 where first: "getBullhornBridge (fst c) (snd c) st = (r, st1)"
    by (cases "getBullhornBridge (fst c) (snd c) st")
  have "defaultInstance st1 = Some r"
    using getBullhornBridge_sets_default [of "fst c" "snd c" st] first by simp
  then have "getBullhornBridge_calls cs st1 = (replicate (length cs) r, st1)"
    by (rule getBullhornBridge_calls_existing)
  with first have general:
    "getBullhornBridge_calls (c # cs) st = (replicate (Suc (length cs)) r, st1)"
    by simp
  let ?st0 = "\<lparr>instances = objs, defaultInstance = None\<rparr>"
  let ?st1 = "\<lparr>instances = objs @ [new_BullhornBridge (fst c) (snd c)],
               defaultInstance = Some (length objs)\<rparr>"
  have fresh: "getBullhornBridge (fst c) (snd c) ?st0 = (length objs, ?st1)"
    by (simp add: getBullhornBridge_def Let_def)
  have "getBullhornBridge_calls cs ?st1 = (replicate (length cs) (length objs), ?st1)"
    by (rule getBullhornBridge_calls_existing) simp
  with fresh have "getBullhornBridge_calls (c # cs) ?st0 =
      (replicate (Suc (length cs)) (length objs), ?st1)"
    by simp
  with general first show ?thesis
    by simp
qed

section \<open>What the origin check accepts\<close>

text \<open>
  C2. The claim: \<open>isAllowedOrigin\<close> accepts an origin exactly when it equals a pattern,
  or the pattern has a \<open>*\<close> and matches the whole origin with \<open>*\<close> for any substring and
  every other character for itself. The code does not escape the pattern before it
  makes a regular expression of it, so a \<open>.\<close> of the pattern matches any character.
  With the default patterns the origin \<open>https://evilbullhorn.com\<close>, which is no
  subdomain of \<open>bullhorn.com\<close>, is accepted by the code and not by the matching the
  claim describes.
\<close>

theorem isAllowedOrigin_accepts_lookalike:
  "isAllowedOrigin (s\<lparr>allowedOrigins := defaultOrigins\<rparr>) ''https://evilbullhorn.com'' = Some True
   \<and> \<not> specAllowedOrigin defaultOrigins ''https://evilbullhorn.com''"
  by (simp add: isAllowedOrigin_def defaultOrigins_def allowedBy_def regexTest_def
                replaceStars_def syntaxCharacter_def lineTerminator_def specAllowedOrigin_def)

section \<open>What the sanitizer returns\<close>

text \<open>
  C9. The claim: the sanitization of an inbound payload keeps the structure of objects
  and arrays. The code copies the elements of an array into a plain object keyed by
  the indices, so a listener of \<open>customEvent\<close> that is sent the array
  \<open>['<b>hi', 7]\<close> from an allowed origin is called with the object
  \<open>{'0': 'bhi', '1': 7}\<close>.
\<close>

theorem sanitizeEventData_array_becomes_object:
  "sanitizeEventData (JArr [JStr ''<b>hi'', JNum 7]) =
     Inr (JObj [(''0'', JStr ''bhi''), (''1'', JNum 7)])
   \<and> inbound ''customEvent'' ''https://app.bullhorn.com'' (JArr [JStr ''<b>hi'', JNum 7])
        (s\<lparr>allowedOrigins := defaultOrigins\<rparr>)
      = Some (Inr (JObj [(''received'', JBool True)]),
              emit ''customEvent'' (JsonData (JObj [(''0'', JStr ''bhi''), (''1'', JNum 7)]))
                (s\<lparr>allowedOrigins := defaultOrigins\<rparr>))"
  by (simp add: inbound_def isAllowedOrigin_def defaultOrigins_def allowedBy_def regexTest_def
                replaceStars_def syntaxCharacter_def lineTerminator_def stripMarkup_def digit_def)

section \<open>Credentials\<close>

lemma toLowerCase_keys:
  "toLowerCase ''corporationId'' = ''corporationid''"
  "toLowerCase ''privateLabelId'' = ''privatelabelid''"
  "toLowerCase ''userId'' = ''userid''"
  "toLowerCase ''restUrl'' = ''resturl''"
  "toLowerCase ''restToken'' = ''resttoken''"
  by (simp_all add: toLowerCase_def lowerChar_def)

lemma validate_js_or_None:
  "validateParam (js_or a None) = validateParam a"
  "validateUrl e (js_or a None) = validateUrl e a"
  "validateToken (js_or a None) = validateToken a"
  by (auto simp add: js_or_def truthy_def validateParam_def validateUrl_def validateToken_def
           split: option.split)

lemma validate_js_or_assoc:
  "js_or a (js_or b None) = js_or (js_or a b) None"
  by (simp add: js_or_def truthy_def split: option.split)

lemma map_of_filter_other:
  "k \<notin> A \<Longrightarrow> map_of (filter (\<lambda>kv. fst kv \<notin> A) h) k = map_of h k"
  by (induction h) auto

text \<open>
  C8, as claimed: every accepted name is resolvable from the query string or from the
  fragment. It is not: \<open>corp\<close> in the fragment leaves \<open>corporationId\<close> unset, though
  the same entry in the query string sets it.
\<close>

theorem credentials_alias_in_fragment_ignored:
  "corporationId (getCredentials (new_BullhornBridge (pageEnv [] [(''corp'', ''42'')]) None)) = None
   \<and> corporationId (getCredentials (new_BullhornBridge (pageEnv [(''corp'', ''42'')] []) None))
       = Some ''42''"
  by (simp add: new_BullhornBridge_def isInIframe_def extractCredentialsFromUrl_def
        getCredentials_def fillFromHash_def fromQuery_def fromHash_def js_or_def truthy_def
        validateParam_def validateUrl_def validateToken_def MAX_PARAM_LENGTH_def Let_def
        toLowerCase_keys)

lemma firstOf_unfold:
  "firstOf ps [a, b] = js_or (js_or (map_of ps a) (map_of ps b)) None"
  "firstOf ps [a] = js_or (map_of ps a) None"
  by (simp_all add: firstOf_def validate_js_or_assoc)

lemma fillFromHash_fields:
  "fillFromHash e c0 =
     \<lparr> corporationId =
         (if truthy (corporationId c0) then corporationId c0
          else validateParam (fromHash (hashParams e) ''corporationId'')),
       privateLabelId =
         (if truthy (privateLabelId c0) then privateLabelId c0
          else validateParam (fromHash (hashParams e) ''privateLabelId'')),
       userId =
         (if truthy (userId c0) then userId c0
          else validateParam (fromHash (hashParams e) ''userId'')),
       restUrl =
         (if truthy (restUrl c0) then restUrl c0
          else validateUrl e (fromHash (hashParams e) ''restUrl'')),
       restToken =
         (if truthy (restToken c0) then restToken c0
          else validateToken (fromHash (hashParams e) ''restToken'')) \<rparr>"
  by (cases c0) (simp add: fillFromHash_def Let_def)

lemma credentials_shape:
  assumes "isInIframe e"
  shows "getCredentials (new_BullhornBridge e config) =
           \<lparr> corporationId = queryThenFragment validateParam
               (firstOf (searchParams e) [''corporationId'', ''corp''])
               (firstOf (hashParams e) [''corporationId'', ''corporationid'']),
             privateLabelId = queryThenFragment validateParam
               (firstOf (searchParams e) [''privateLabelId'', ''plid''])
               (firstOf (hashParams e) [''privateLabelId'', ''privatelabelid'']),
             userId = queryThenFragment validateParam
               (firstOf (searchParams e) [''userId'', ''uid''])
               (firstOf (hashParams e) [''userId'', ''userid'']),
             restUrl = queryThenFragment (validateUrl e)
               (firstOf (searchParams e) [''restUrl''])
               (firstOf (hashParams e) [''restUrl'', ''resturl'']),
             restToken = queryThenFragment validateToken
               (firstOf (searchParams e) [''BhRestToken'', ''restToken''])
               (firstOf (hashParams e) [''restToken'', ''resttoken'']) \<rparr>"
    (is "_ = ?rhs")
proof -
  have inframe: "frame e = InFrame"
    using assms by (simp add: isInIframe_def)
  have "getCredentials (new_BullhornBridge e config) = fillFromHash e (fromQuery e)"
    by (simp add: new_BullhornBridge_def isInIframe_def inframe extractCredentialsFromUrl_def
          getCredentials_def Let_def)
  also have "\<dots> = ?rhs"
    unfolding fillFromHash_fields
    by (simp only: fromQuery_def Let_def BullhornCredentials.simps fromHash_def
          toLowerCase_keys firstOf_unfold validate_js_or_None queryThenFragment_def)
  finally show ?thesis .
qed

lemma firstOf_filter:
  "set names \<inter> A = {} \<Longrightarrow> firstOf (filter (\<lambda>kv. fst kv \<notin> A) h) names = firstOf h names"
  by (induction names) (simp_all add: firstOf_def map_of_filter_other)

lemma validateUrl_hashParams:
  "validateUrl (e\<lparr>hashParams := h\<rparr>) = validateUrl e"
  by (rule ext) (simp add: validateUrl_def split: option.split)

text \<open>
  C8, amended. At construction inside a frame each of the five fields is resolved from
  the query string under its accepted names (\<open>corporationId|corp\<close>,
  \<open>privateLabelId|plid\<close>, \<open>userId|uid\<close>, \<open>restUrl\<close>, \<open>BhRestToken|restToken\<close>), and from
  the fragment only when the query string leaves the field unset, there under the
  name of the field or that name in lower case. The names \<open>corp\<close>, \<open>plid\<close>, \<open>uid\<close> and
  \<open>BhRestToken\<close> are not read from the fragment: removing the entries under these
  names from the fragment changes no credential.
\<close>

theorem credentials_query_then_fragment:
  assumes "isInIframe e"
  shows "getCredentials (new_BullhornBridge e config) =
           \<lparr> corporationId = queryThenFragment validateParam
               (firstOf (searchParams e) [''corporationId'', ''corp''])
               (firstOf (hashParams e) [''corporationId'', ''corporationid'']),
             privateLabelId = queryThenFragment validateParam
               (firstOf (searchParams e) [''privateLabelId'', ''plid''])
               (firstOf (hashParams e) [''privateLabelId'', ''privatelabelid'']),
             userId = queryThenFragment validateParam
               (firstOf (searchParams e) [''userId'', ''uid''])
               (firstOf (hashParams e) [''userId'', ''userid'']),
             restUrl = queryThenFragment (validateUrl e)
               (firstOf (searchParams e) [''restUrl''])
               (firstOf (hashParams e) [''restUrl'', ''resturl'']),
             restToken = queryThenFragment validateToken
               (firstOf (searchParams e) [''BhRestToken'', ''restToken''])
               (firstOf (hashParams e) [''restToken'', ''resttoken'']) \<rparr>
         \<and> getCredentials (new_BullhornBridge
               (e\<lparr>hashParams := filter (\<lambda>kv. fst kv \<notin> set aliasNames) (hashParams e)\<rparr>) config)
             = getCredentials (new_BullhornBridge e config)"
proof -
  let ?e' = "e\<lparr>hashParams := filter (\<lambda>kv. fst kv \<notin> set aliasNames) (hashParams e)\<rparr>"
  have "isInIframe ?e'"
    using assms by (simp add: isInIframe_def)
  moreover have "firstOf (filter (\<lambda>kv. fst kv \<notin> set aliasNames) h) names = firstOf h names"
    if "names \<in> {[''corporationId'', ''corporationid''], [''privateLabelId'', ''privatelabelid''],
                     [''userId'', ''userid''], [''restUrl'', ''resturl''],
                     [''restToken'', ''resttoken'']}" for h names
    using that by (intro firstOf_filter) (auto simp add: aliasNames_def)
  ultimately have "getCredentials (new_BullhornBridge ?e' config) =
             getCredentials (new_BullhornBridge e config)"
    by (simp add: credentials_shape assms validateUrl_hashParams)
  then show ?thesis
    using credentials_shape [OF assms] by simp
qed

theorem credentials_query_then_fragment_witness:
  "isInIframe (pageEnv [(''uid'', ''7''), (''restUrl'', ''http://rest.example.com/'')]
                       [(''userid'', ''9''), (''resturl'', ''https://rest.example.com/''),
                        (''BhRestToken'', ''abc''), (''resttoken'', ''t-1'')])
   \<and> getCredentials (new_BullhornBridge
        (pageEnv [(''uid'', ''7''), (''restUrl'', ''http://rest.example.com/'')]
                 [(''userid'', ''9''), (''resturl'', ''https://rest.example.com/''),
                  (''BhRestToken'', ''abc''), (''resttoken'', ''t-1'')]) None)
      = \<lparr> corporationId = None, privateLabelId = None, userId = Some ''7'',
          restUrl = Some ''https://rest.example.com/'', restToken = Some ''t-1'' \<rparr>"
proof -
  let ?e = "pageEnv [(''uid'', ''7''), (''restUrl'', ''http://rest.example.com/'')]
                    [(''userid'', ''9''), (''resturl'', ''https://rest.example.com/''),
                     (''BhRestToken'', ''abc''), (''resttoken'', ''t-1'')]"
  have inframe: "isInIframe ?e"
    by (simp add: isInIframe_def)
  show ?thesis
    using credentials_query_then_fragment [OF inframe, of None]
    by (simp add: isInIframe_def queryThenFragment_def firstOf_def js_or_def truthy_def
          validateParam_def validateUrl_def validateToken_def MAX_PARAM_LENGTH_def
          startsWith_def tokenChar_def)
qed

section \<open>The registration handshake\<close>

lemma sent_append: "sent (xs @ ys) = sent xs @ sent ys"
  by (induction xs rule: sent.induct) simp_all

lemma sent_Called_map: "sent (map (\<lambda>cb. Called cb d) ls) = []"
  by (induction ls) simp_all

lemma run_pending:
  "registrationPromise s = Some (Pending ph config) \<Longrightarrow>
   run_registration e s = run_registration e (resume e s)"
  by (subst run_registration.simps) simp

lemma run_settled:
  "registrationPromise s = None \<Longrightarrow> run_registration e s = s"
  "registrationPromise s = Some Fulfilled \<Longrightarrow> run_registration e s = s"
  "registrationPromise s = Some (RejectedWith err) \<Longrightarrow> run_registration e s = s"
  by (subst run_registration.simps, simp)+

lemma run_never_pending:
  "registrationPromise (run_registration e s) \<noteq> Some (Pending ph config)"
proof (induction e s rule: run_registration.induct)
  case (1 e s)
  show ?case
  proof (cases "registrationPromise s")
    case None
    then show ?thesis by (simp add: run_settled)
  next
    case (Some p)
    then show ?thesis
    proof (cases p)
      case (Pending ph' config')
      with Some 1 show ?thesis by (simp add: run_pending)
    qed (simp_all add: run_settled)
  qed
qed

lemma resume_Importing:
  "registrationPromise s = Some (Pending Importing config) \<Longrightarrow>
   resume e s =
     (if importOk e
      then s\<lparr>postRobot := True, trace := trace s @ [Sent (registerMessage e config)],
             registrationPromise := Some (Pending AwaitingReply config)\<rparr>
      else s\<lparr>registrationPromise :=
               Some (RejectedWith (Error ''Failed to initialize communication library''))\<rparr>)"
  by (simp add: resume_def afterImport_def sendRegister_def)

lemma resume_Backoff:
  "registrationPromise s = Some (Pending Backoff config) \<Longrightarrow>
   resume e s =
     (if postRobot s
      then s\<lparr>trace := trace s @ [Sent (registerMessage e config)],
             registrationPromise := Some (Pending AwaitingReply config)\<rparr>
      else s\<lparr>registrationPromise := Some (Pending Importing config)\<rparr>)"
  by (simp add: resume_def performRegistration_def sendRegister_def)

lemma resume_AwaitingReply:
  "registrationPromise s = Some (Pending AwaitingReply config) \<Longrightarrow>
   resume e s =
     (let (p, s') = afterReply e config (transport e (length (sent (trace s)) - 1)) s
      in s'\<lparr>registrationPromise := Some p\<rparr>)"
  by (simp add: resume_def)

lemma afterReply_Rejected:
  "afterReply e config (Rejected f) s =
     (if registrationAttempts s < maxRegistrationAttempts
      then (Pending Backoff config, s\<lparr>registrationAttempts := registrationAttempts s + 1\<rparr>)
      else (RejectedWith (Error ''Failed to register with Bullhorn after maximum attempts''),
            s\<lparr>trace := trace s
                 @ (case onErrorCallback s of None \<Rightarrow> []
                    | Some cb \<Rightarrow> [Called cb (ErrData (Error ''Failed to register with Bullhorn after maximum attempts''))])
                 @ Emitted ''error'' (ErrData (Error ''Failed to register with Bullhorn after maximum attempts''))
                 # map (\<lambda>cb. Called cb (ErrData (Error ''Failed to register with Bullhorn after maximum attempts'')))
                     (case eventListeners s ''error'' of None \<Rightarrow> [] | Some l \<Rightarrow> l)\<rparr>))"
  by (simp add: afterReply_def emit_def Let_def split: option.split)

lemma afterReply_Resolved:
  "afterReply e config (Resolved d) s =
     (Fulfilled,
      s\<lparr>isRegistered := True,
        trace := trace s
          @ (if postRobot s then [Subscribed ''customEvent'' (allowedOrigins s),
                                  Subscribed ''update'' (allowedOrigins s)] else [])
          @ (case onReadyCallback s of None \<Rightarrow> [] | Some cb \<Rightarrow> [Called cb NoData])
          @ Emitted ''ready'' NoData
          # map (\<lambda>cb. Called cb NoData)
              (case eventListeners s ''ready'' of None \<Rightarrow> [] | Some l \<Rightarrow> l)\<rparr>)"
  by (simp add: afterReply_def emit_def Let_def setupEventListeners_def split: option.split)

lemma run_retry_once:
  assumes "registrationPromise s = Some (Pending AwaitingReply config)" and "postRobot s"
      and "registrationAttempts s < maxRegistrationAttempts"
      and "transport e (length (sent (trace s)) - 1) = Rejected f"
  shows "run_registration e s =
         run_registration e (s\<lparr>registrationAttempts := Suc (registrationAttempts s),
                                trace := trace s @ [Sent (registerMessage e config)]\<rparr>)"
proof -
  let ?s1 = "s\<lparr>registrationAttempts := registrationAttempts s + 1,
                registrationPromise := Some (Pending Backoff config)\<rparr>"
  have "resume e s = ?s1"
    using assms by (simp add: resume_AwaitingReply afterReply_Rejected)
  then have "run_registration e s = run_registration e ?s1"
    using assms(1) by (simp add: run_pending)
  also have "\<dots> = run_registration e (resume e ?s1)"
    by (rule run_pending) simp
  also have "resume e ?s1 = s\<lparr>registrationAttempts := Suc (registrationAttempts s),
                               trace := trace s @ [Sent (registerMessage e config)]\<rparr>"
    using assms(1,2) by (simp add: resume_Backoff)
  finally show ?thesis .
qed

lemma run_retries:
  assumes "registrationPromise s = Some (Pending AwaitingReply config)" and "postRobot s"
      and "sent (trace s) \<noteq> []"
      and "registrationAttempts s + k \<le> maxRegistrationAttempts"
      and "\<And>i. i < k \<Longrightarrow> \<exists>f. transport e (length (sent (trace s)) - 1 + i) = Rejected f"
  shows "run_registration e s =
         run_registration e (s\<lparr>registrationAttempts := registrationAttempts s + k,
                                trace := trace s @ replicate k (Sent (registerMessage e config))\<rparr>)"
  using assms
proof (induction k arbitrary: s)
  case 0
  then show ?case by simp
next
  case (Suc k)
  let ?s1 = "s\<lparr>registrationAttempts := Suc (registrationAttempts s),
                trace := trace s @ [Sent (registerMessage e config)]\<rparr>"
  obtain f where "transport e (length (sent (trace s)) - 1) = Rejected f"
    using Suc.prems(5) [of 0] by auto
  then have "run_registration e s = run_registration e ?s1"
    using Suc.prems by (intro run_retry_once) simp_all
  also have "\<dots> = run_registration e
      (?s1\<lparr>registrationAttempts := registrationAttempts ?s1 + k,
           trace := trace ?s1 @ replicate k (Sent (registerMessage e config))\<rparr>)"
  proof (rule Suc.IH)
    fix i assume "i < k"
    then obtain f where "transport e (length (sent (trace s)) - 1 + Suc i) = Rejected f"
      using Suc.prems(5) [of "Suc i"] by auto
    moreover have "length (sent (trace ?s1)) - 1 + i = length (sent (trace s)) - 1 + Suc i"
      using Suc.prems(3) by (cases "sent (trace s)") (simp_all add: sent_append)
    ultimately show "\<exists>f. transport e (length (sent (trace ?s1)) - 1 + i) = Rejected f"
      by auto
  qed (use Suc.prems in \<open>simp_all add: sent_append\<close>)
  also have "?s1\<lparr>registrationAttempts := registrationAttempts ?s1 + k,
           trace := trace ?s1 @ replicate k (Sent (registerMessage e config))\<rparr>
       = s\<lparr>registrationAttempts := registrationAttempts s + Suc k,
           trace := trace s @ replicate (Suc k) (Sent (registerMessage e config))\<rparr>"
    by (simp add: replicate_append_same)
  finally show ?case .
qed

lemma new_BullhornBridge_fields:
  "postRobot (new_BullhornBridge e bc) = False"
  "isRegistered (new_BullhornBridge e bc) = False"
  "registrationPromise (new_BullhornBridge e bc) = None"
  "registrationAttempts (new_BullhornBridge e bc) = 0"
  "trace (new_BullhornBridge e bc) = []"
  "eventListeners (new_BullhornBridge e bc) = Map.empty"
  "onReadyCallback (new_BullhornBridge e bc) = Option.bind bc cfg_onReady"
  "onErrorCallback (new_BullhornBridge e bc) = Option.bind bc cfg_onError"
  by (simp_all add: new_BullhornBridge_def extractCredentialsFromUrl_def Let_def)

lemma resume_cases:
  assumes "registrationPromise s = Some (Pending ph config)" and "\<not> isRegistered s"
  shows "(\<exists>ph'. registrationPromise (resume e s) = Some (Pending ph' config)
            \<and> \<not> isRegistered (resume e s))
       \<or> (registrationPromise (resume e s) = Some Fulfilled \<and> isRegistered (resume e s))
       \<or> (\<exists>err. registrationPromise (resume e s) = Some (RejectedWith err)
            \<and> \<not> isRegistered (resume e s))"
proof (cases ph)
  case Importing
  with assms show ?thesis by (simp add: resume_Importing)
next
  case AwaitingReply
  with assms show ?thesis
    by (cases "transport e (length (sent (trace s)) - 1)")
       (simp_all add: resume_AwaitingReply afterReply_Rejected afterReply_Resolved)
next
  case Backoff
  with assms show ?thesis by (simp add: resume_Backoff)
qed

lemma awaitRegistration_pending:
  "registrationPromise s = Some (Pending ph config) \<Longrightarrow>
   awaitRegistration e s = awaitRegistration e (resume e s)"
  by (simp add: awaitRegistration_def run_pending)

lemma awaitRegistration_settled:
  "registrationPromise s = Some Fulfilled \<Longrightarrow>
   awaitRegistration e s = (Inr (isRegistered s), s)"
  "registrationPromise s = Some (RejectedWith err) \<Longrightarrow> awaitRegistration e s = (Inl err, s)"
  by (simp_all add: awaitRegistration_def run_settled)

lemma snd_awaitRegistration: "snd (awaitRegistration e s) = run_registration e s"
  by (simp add: awaitRegistration_def Let_def split: option.split promise.split)

lemma call_register_pending:
  assumes "isInIframe e" and "registrationPromise (sess m) = Some (Pending ph config)"
      and "\<not> isRegistered (sess m)"
  shows "call_register e c m = m\<lparr>waiting := waiting m @ [fst c]\<rparr>"
  using assms by (simp add: call_register_def wake_def)

lemma call_all_pending:
  assumes "isInIframe e" and "registrationPromise (sess m) = Some (Pending ph config)"
      and "\<not> isRegistered (sess m)"
  shows "call_all e cs m = m\<lparr>waiting := waiting m @ map fst cs\<rparr>"
  using assms
proof (induction cs arbitrary: m)
  case Nil
  then show ?case by (simp add: call_all_def)
next
  case (Cons c cs)
  have "call_all e (c # cs) m = call_all e cs (call_register e c m)"
    by (simp add: call_all_def)
  also have "\<dots> = call_all e cs (m\<lparr>waiting := waiting m @ [fst c]\<rparr>)"
    using Cons.prems by (simp add: call_register_pending)
  also have "\<dots> = (m\<lparr>waiting := waiting m @ [fst c]\<rparr>)
      \<lparr>waiting := waiting (m\<lparr>waiting := waiting m @ [fst c]\<rparr>) @ map fst cs\<rparr>"
    using Cons.prems by (intro Cons.IH) simp_all
  finally show ?case by simp
qed

lemma call_all_settled:
  assumes "isInIframe e" and "waiting m = []"
      and "(registrationPromise (sess m) = Some Fulfilled \<and> isRegistered (sess m))
         \<or> (\<exists>err. registrationPromise (sess m) = Some (RejectedWith err)
              \<and> \<not> isRegistered (sess m))"
  shows "call_all e cs m =
         m\<lparr>returned := returned m @ map (\<lambda>x. (fst x, fst (awaitRegistration e (sess m)))) cs\<rparr>"
  using assms
proof (induction cs arbitrary: m)
  case Nil
  then show ?case by (simp add: call_all_def)
next
  case (Cons c cs)
  let ?out = "fst (awaitRegistration e (sess m))"
  have one: "call_register e c m = m\<lparr>returned := returned m @ [(fst c, ?out)]\<rparr>"
    using Cons.prems
    by (auto simp add: call_register_def wake_def awaitRegistration_settled)
  have "call_all e (c # cs) m = call_all e cs (call_register e c m)"
    by (simp add: call_all_def)
  also have "\<dots> = call_all e cs (m\<lparr>returned := returned m @ [(fst c, ?out)]\<rparr>)"
    by (simp only: one)
  also have "\<dots> = (m\<lparr>returned := returned m @ [(fst c, ?out)]\<rparr>)
      \<lparr>returned := returned (m\<lparr>returned := returned m @ [(fst c, ?out)]\<rparr>)
         @ map (\<lambda>x. (fst x, fst (awaitRegistration e
              (sess (m\<lparr>returned := returned m @ [(fst c, ?out)]\<rparr>))))) cs\<rparr>"
    using Cons.prems by (intro Cons.IH) simp_all
  finally show ?case by simp
qed

lemma remaining_resume:
  assumes "registrationPromise s = Some (Pending ph config)"
  shows "remaining (resume e s) < remaining s"
proof (cases ph)
  case Importing
  with assms show ?thesis
    by (simp add: resume_Importing remaining_def rank_def)
next
  case AwaitingReply
  have "registrationAttempts s < maxRegistrationAttempts \<Longrightarrow>
        2 + 3 * (maxRegistrationAttempts - (registrationAttempts s + 1))
          < 3 * (maxRegistrationAttempts - registrationAttempts s)"
    by arith
  with assms AwaitingReply show ?thesis
    by (cases "transport e (length (sent (trace s)) - 1)")
       (simp_all add: resume_AwaitingReply afterReply_Rejected afterReply_Resolved
                      remaining_def rank_def)
next
  case Backoff
  with assms show ?thesis
    by (simp add: resume_Backoff remaining_def rank_def)
qed

lemma event_loop_step:
  assumes "registrationPromise (sess m) = Some (Pending ph config)"
  shows "event_loop e bursts m =
         event_loop e (tl bursts) (deliver e (call_all e (concat (take (Suc 0) bursts)) m))"
  using assms
  by (subst event_loop.simps) (simp add: call_all_def split: list.split)

lemma event_loop_settled:
  assumes "isInIframe e" and "waiting m = []"
      and "(registrationPromise (sess m) = Some Fulfilled \<and> isRegistered (sess m))
         \<or> (\<exists>err. registrationPromise (sess m) = Some (RejectedWith err)
              \<and> \<not> isRegistered (sess m))"
  shows "event_loop e bursts m =
         m\<lparr>returned := returned m
              @ map (\<lambda>x. (fst x, fst (awaitRegistration e (sess m)))) (concat bursts)\<rparr>"
proof -
  have "event_loop e bursts m = call_all e (concat bursts) m"
    using assms(3) by (subst event_loop.simps) auto
  then show ?thesis
    using assms by (simp add: call_all_settled)
qed

lemma event_loop_pending:
  assumes "isInIframe e" and "registrationPromise (sess m) = Some (Pending ph config)"
      and "\<not> isRegistered (sess m)"
  shows "event_loop e bursts m =
         m\<lparr>sess := run_registration e (sess m),
           waiting := [],
           returned := returned m
             @ map (\<lambda>c. (c, fst (awaitRegistration e (sess m))))
                 (waiting m @ map fst (concat bursts))\<rparr>"
  using assms
proof (induction "remaining (sess m)" arbitrary: m bursts ph rule: less_induct)
  case less
  let ?b = "concat (take (Suc 0) bursts)"
  let ?s' = "resume e (sess m)"
  let ?out = "fst (awaitRegistration e (sess m))"
  have pending: "registrationPromise (sess m) = Some (Pending ph config)"
    by (rule less.prems(2))
  have bursts: "?b @ concat (tl bursts) = concat bursts"
    by (cases bursts) simp_all
  have out: "fst (awaitRegistration e ?s') = ?out"
    using pending by (simp add: awaitRegistration_pending)
  have run: "run_registration e ?s' = run_registration e (sess m)"
    using pending by (simp add: run_pending)
  let ?m1 = "m\<lparr>waiting := waiting m @ map fst ?b\<rparr>"
  have m1: "call_all e ?b m = ?m1"
    using less.prems by (rule call_all_pending)
  have step: "event_loop e bursts m = event_loop e (tl bursts) (wake (?m1\<lparr>sess := ?s'\<rparr>))"
    using pending by (simp add: event_loop_step [of m ph config] m1 deliver_def)
  from resume_cases [OF pending less.prems(3), of e]
  consider
    (pending) ph' where "registrationPromise ?s' = Some (Pending ph' config)"
        and "\<not> isRegistered ?s'"
    | (fulfilled) "registrationPromise ?s' = Some Fulfilled" and "isRegistered ?s'"
    | (rejected) err where "registrationPromise ?s' = Some (RejectedWith err)"
        and "\<not> isRegistered ?s'"
    by blast
  then show ?case
  proof cases
    case pending
    let ?m2 = "?m1\<lparr>sess := ?s'\<rparr>"
    have "wake ?m2 = ?m2"
      using pending(1) by (simp add: wake_def)
    moreover have "event_loop e (tl bursts) ?m2 =
        ?m2\<lparr>sess := run_registration e (sess ?m2), waiting := [],
            returned := returned ?m2
              @ map (\<lambda>c. (c, fst (awaitRegistration e (sess ?m2))))
                  (waiting ?m2 @ map fst (concat (tl bursts)))\<rparr>"
    proof (rule less.hyps)
      show "remaining (sess ?m2) < remaining (sess m)"
        using remaining_resume [OF less.prems(2), of e] by simp
    qed (use pending less.prems(1) in simp_all)
    ultimately show ?thesis
      using step out run bursts [symmetric] by simp
  next
    case fulfilled
    let ?m2 = "m\<lparr>sess := ?s', waiting := [],
                 returned := returned m @ map (\<lambda>c. (c, Inr True)) (waiting m @ map fst ?b)\<rparr>"
    have wake: "wake (?m1\<lparr>sess := ?s'\<rparr>) = ?m2"
      using fulfilled by (simp add: wake_def)
    have settled: "awaitRegistration e ?s' = (Inr True, ?s')"
      using fulfilled by (simp add: awaitRegistration_settled)
    then have outT: "?out = Inr True"
      using out by simp
    have run': "run_registration e (sess m) = ?s'"
      using run fulfilled by (simp add: run_settled)
    have "event_loop e (tl bursts) ?m2 =
        ?m2\<lparr>returned := returned ?m2
          @ map (\<lambda>x. (fst x, fst (awaitRegistration e (sess ?m2)))) (concat (tl bursts))\<rparr>"
      using fulfilled less.prems(1) by (intro event_loop_settled) simp_all
    then show ?thesis
      using step wake settled outT run' bursts [symmetric] by (simp add: comp_def)
  next
    case rejected
    let ?m2 = "m\<lparr>sess := ?s', waiting := [],
                 returned := returned m @ map (\<lambda>c. (c, Inl err)) (waiting m @ map fst ?b)\<rparr>"
    have wake: "wake (?m1\<lparr>sess := ?s'\<rparr>) = ?m2"
      using rejected by (simp add: wake_def)
    have settled: "awaitRegistration e ?s' = (Inl err, ?s')"
      using rejected by (simp add: awaitRegistration_settled)
    then have outT: "?out = Inl err"
      using out by simp
    have run': "run_registration e (sess m) = ?s'"
      using run rejected by (simp add: run_settled)
    have "event_loop e (tl bursts) ?m2 =
        ?m2\<lparr>returned := returned ?m2
          @ map (\<lambda>x. (fst x, fst (awaitRegistration e (sess ?m2)))) (concat (tl bursts))\<rparr>"
      using rejected less.prems(1) by (intro event_loop_settled) simp_all
    then show ?thesis
      using step wake settled outT run' bursts [symmetric] by (simp add: comp_def)
  qed
qed

lemma run_failures_then_success:
  assumes "registrationPromise s = Some (Pending AwaitingReply config)" and "postRobot s"
      and "sent (trace s) \<noteq> []"
      and "registrationAttempts s + k \<le> maxRegistrationAttempts"
      and "\<And>i. i < k \<Longrightarrow> \<exists>f. transport e (length (sent (trace s)) - 1 + i) = Rejected f"
      and "transport e (length (sent (trace s)) - 1 + k) = Resolved d"
  shows "registrationPromise (run_registration e s) = Some Fulfilled
       \<and> isRegistered (run_registration e s)
       \<and> sent (trace (run_registration e s))
           = sent (trace s) @ replicate k (registerMessage e config)"
proof -
  let ?msg = "registerMessage e config"
  let ?sk = "s\<lparr>registrationAttempts := registrationAttempts s + k,
                trace := trace s @ replicate k (Sent ?msg)\<rparr>"
  have sent_k: "sent (replicate k (Sent ?msg)) = replicate k ?msg"
    by (induction k) simp_all
  have "run_registration e s = run_registration e ?sk"
    using assms(1-5) by (rule run_retries)
  also have "\<dots> = run_registration e (resume e ?sk)"
    using assms(1) by (intro run_pending) simp
  finally have run: "run_registration e s = run_registration e (resume e ?sk)" .
  have index: "length (sent (trace ?sk)) - 1 = length (sent (trace s)) - 1 + k"
    using assms(3) by (cases "sent (trace s)") (simp_all add: sent_append sent_k)
  have "registrationPromise ?sk = Some (Pending AwaitingReply config)"
    using assms(1) by simp
  then have resumed: "resume e ?sk =
      (snd (afterReply e config (Resolved d) ?sk))\<lparr>registrationPromise := Some Fulfilled\<rparr>"
    using assms(6) index by (simp add: resume_AwaitingReply afterReply_Resolved)
  then have "registrationPromise (resume e ?sk) = Some Fulfilled"
    by simp
  then have "run_registration e (resume e ?sk) = resume e ?sk"
    by (rule run_settled)
  with run resumed show ?thesis
    by (simp add: afterReply_Resolved sent_append sent_k sent_Called_map split: option.split)
qed

lemma register_starts:
  assumes "isInIframe e" and "\<not> isRegistered s" and "registrationPromise s = None"
      and "postRobot s \<or> importOk e"
  shows "register e config s =
         awaitRegistration e
           (s\<lparr>postRobot := True, trace := trace s @ [Sent (registerMessage e config)],
              registrationPromise := Some (Pending AwaitingReply config)\<rparr>)"
proof (cases "postRobot s")
  case True
  have "register e config s =
        awaitRegistration e
          (s\<lparr>trace := trace s @ [Sent (registerMessage e config)],
             registrationPromise := Some (Pending AwaitingReply config)\<rparr>)"
    using True assms by (simp add: register_def performRegistration_def sendRegister_def)
  also have "s\<lparr>trace := trace s @ [Sent (registerMessage e config)],
             registrationPromise := Some (Pending AwaitingReply config)\<rparr>
           = s\<lparr>postRobot := True, trace := trace s @ [Sent (registerMessage e config)],
              registrationPromise := Some (Pending AwaitingReply config)\<rparr>"
    using True by (cases s) simp
  finally show ?thesis .
next
  case False
  with assms have ok: "importOk e"
    by simp
  have "register e config s =
        awaitRegistration e (s\<lparr>registrationPromise := Some (Pending Importing config)\<rparr>)"
    using False assms by (simp add: register_def performRegistration_def)
  also have "\<dots> = awaitRegistration e
      (resume e (s\<lparr>registrationPromise := Some (Pending Importing config)\<rparr>))"
    by (rule awaitRegistration_pending) simp
  also have "resume e (s\<lparr>registrationPromise := Some (Pending Importing config)\<rparr>)
      = s\<lparr>postRobot := True, trace := trace s @ [Sent (registerMessage e config)],
          registrationPromise := Some (Pending AwaitingReply config)\<rparr>"
    using ok by (simp add: resume_Importing)
  finally show ?thesis .
qed

lemma run_rejected_unregistered:
  assumes "registrationPromise (run_registration e s) = Some (RejectedWith err)"
      and "\<not> isRegistered s"
  shows "\<not> isRegistered (run_registration e s)"
  using assms
proof (induction "remaining s" arbitrary: s rule: less_induct)
  case less
  show ?case
  proof (cases "\<exists>ph config. registrationPromise s = Some (Pending ph config)")
    case False
    then have "run_registration e s = s"
      by (subst run_registration.simps) (auto split: option.split promise.split)
    with less.prems show ?thesis by simp
  next
    case True
    then obtain ph config where pending: "registrationPromise s = Some (Pending ph config)"
      by blast
    then have run: "run_registration e s = run_registration e (resume e s)"
      by (rule run_pending)
    from resume_cases [OF pending less.prems(2), of e] show ?thesis
    proof (elim disjE exE conjE)
      fix ph' assume "registrationPromise (resume e s) = Some (Pending ph' config)"
        and "\<not> isRegistered (resume e s)"
      then show ?thesis
        using less.hyps [of "resume e s"] remaining_resume [OF pending, of e] less.prems(1) run
        by simp
    next
      assume "registrationPromise (resume e s) = Some Fulfilled"
      then show ?thesis
        using less.prems(1) run by (simp add: run_settled)
    next
      fix err' assume "registrationPromise (resume e s) = Some (RejectedWith err')"
        and "\<not> isRegistered (resume e s)"
      then show ?thesis
        using run by (simp add: run_settled)
    qed
  qed
qed

lemma run_all_failures:
  assumes "registrationPromise s = Some (Pending AwaitingReply config)" and "postRobot s"
      and "sent (trace s) \<noteq> []"
      and "registrationAttempts s \<le> maxRegistrationAttempts"
      and "\<forall>k. \<exists>f. transport e k = Rejected f"
  shows "run_registration e s =
         s\<lparr>registrationAttempts := maxRegistrationAttempts,
           trace := trace s
             @ replicate (maxRegistrationAttempts - registrationAttempts s)
                 (Sent (registerMessage e config))
             @ (case onErrorCallback s of None \<Rightarrow> []
                | Some cb \<Rightarrow> [Called cb (ErrData (Error ''Failed to register with Bullhorn after maximum attempts''))])
             @ Emitted ''error'' (ErrData (Error ''Failed to register with Bullhorn after maximum attempts''))
             # map (\<lambda>cb. Called cb (ErrData (Error ''Failed to register with Bullhorn after maximum attempts'')))
                 (case eventListeners s ''error'' of None \<Rightarrow> [] | Some l \<Rightarrow> l),
           registrationPromise :=
             Some (RejectedWith (Error ''Failed to register with Bullhorn after maximum attempts''))\<rparr>"
proof -
  let ?k = "maxRegistrationAttempts - registrationAttempts s"
  let ?sk = "s\<lparr>registrationAttempts := registrationAttempts s + ?k,
                trace := trace s @ replicate ?k (Sent (registerMessage e config))\<rparr>"
  have "run_registration e s = run_registration e ?sk"
    using assms by (intro run_retries) simp_all
  also have "\<dots> = run_registration e (resume e ?sk)"
    using assms(1) by (intro run_pending) simp
  finally have run: "run_registration e s = run_registration e (resume e ?sk)" .
  obtain f where "transport e (length (sent (trace ?sk)) - 1) = Rejected f"
    using assms(5) by blast
  moreover have "registrationPromise ?sk = Some (Pending AwaitingReply config)"
    using assms(1) by simp
  moreover have "registrationAttempts ?sk = maxRegistrationAttempts"
    using assms(4) by simp
  ultimately have resumed: "resume e ?sk =
      (snd (afterReply e config (Rejected f) ?sk))
        \<lparr>registrationPromise := Some (RejectedWith
            (Error ''Failed to register with Bullhorn after maximum attempts''))\<rparr>"
    by (simp add: resume_AwaitingReply afterReply_Rejected)
  then have "run_registration e (resume e ?sk) = resume e ?sk"
    by (intro run_settled(3)) simp
  with run resumed show ?thesis
    using assms(4) by (simp add: afterReply_Rejected)
qed

lemma first_call:
  fixes config :: "BullhornConfig option"
  assumes "isInIframe e" and "\<not> isRegistered s" and "registrationPromise s = None"
  defines "s0 \<equiv> (case performRegistration e config s of
                    (p, s1) \<Rightarrow> s1\<lparr>registrationPromise := Some p\<rparr>)"
  shows "call_register e (c, config) \<lparr>sess = s, waiting = [], returned = []\<rparr>
           = \<lparr>sess = s0, waiting = [c], returned = []\<rparr>"
    and "\<exists>ph. registrationPromise s0 = Some (Pending ph config)"
    and "\<not> isRegistered s0"
    and "register e config s = awaitRegistration e s0"
proof -
  show pending: "\<exists>ph. registrationPromise s0 = Some (Pending ph config)"
    by (simp add: s0_def performRegistration_def sendRegister_def)
  show "\<not> isRegistered s0"
    using assms(2) by (simp add: s0_def performRegistration_def sendRegister_def)
  show "register e config s = awaitRegistration e s0"
    using assms(1-3) by (simp add: s0_def register_def split: prod.split)
  from pending obtain ph where "registrationPromise s0 = Some (Pending ph config)"
    by blast
  then have "wake \<lparr>sess = s0, waiting = [c], returned = []\<rparr>
           = \<lparr>sess = s0, waiting = [c], returned = []\<rparr>"
    by (simp add: wake_def)
  moreover have "call_register e (c, config) \<lparr>sess = s, waiting = [], returned = []\<rparr>
           = wake \<lparr>sess = s0, waiting = [c], returned = []\<rparr>"
    using assms(1-3) by (cases "performRegistration e config s") (simp add: call_register_def s0_def)
  ultimately show "call_register e (c, config) \<lparr>sess = s, waiting = [], returned = []\<rparr>
           = \<lparr>sess = s0, waiting = [c], returned = []\<rparr>"
    by simp
qed

lemma callers_share_one_registration:
  assumes "isInIframe e" and "\<not> isRegistered s" and "registrationPromise s = None"
  shows "event_loop e bursts (call_register e c0 \<lparr>sess = s, waiting = [], returned = []\<rparr>)
       = \<lparr>sess = snd (register e (snd c0) s), waiting = [],
          returned = map (\<lambda>c. (fst c, fst (register e (snd c0) s))) (c0 # concat bursts)\<rparr>"
proof -
  obtain c config where c0: "c0 = (c, config)"
    by (cases c0)
  define s0 where "s0 = (case performRegistration e config s of
                           (p, s1) \<Rightarrow> s1\<lparr>registrationPromise := Some p\<rparr>)"
  note first = first_call(1) [OF assms, where config = config and c = c, folded s0_def]
    first_call(2-4) [OF assms, where config = config, folded s0_def]
  from first(2) obtain ph where pending: "registrationPromise s0 = Some (Pending ph config)"
    by blast
  let ?m0 = "\<lparr>sess = s0, waiting = [c], returned = []\<rparr>"
  have "event_loop e bursts ?m0 =
        ?m0\<lparr>sess := run_registration e (sess ?m0), waiting := [],
            returned := returned ?m0
              @ map (\<lambda>c. (c, fst (awaitRegistration e (sess ?m0))))
                  (waiting ?m0 @ map fst (concat bursts))\<rparr>"
    using assms(1) pending first(3) by (intro event_loop_pending) simp_all
  then show ?thesis
    unfolding c0 first(1)
    by (simp add: first(4) snd_awaitRegistration comp_def)
qed

lemma register_all_rejected:
  assumes "isInIframe e"
      and "\<not> isRegistered s" and "registrationPromise s = None" and "registrationAttempts s = 0"
      and "postRobot s \<or> importOk e"
      and "\<forall>k. \<exists>f. transport e k = Rejected f"
  shows "fst (register e config s)
         = Inl (Error ''Failed to register with Bullhorn after maximum attempts'')"
proof -
  let ?err = "Error ''Failed to register with Bullhorn after maximum attempts''"
  let ?msg = "registerMessage e config"
  let ?s1 = "s\<lparr>postRobot := True, trace := trace s @ [Sent ?msg],
               registrationPromise := Some (Pending AwaitingReply config)\<rparr>"
  have start: "register e config s = awaitRegistration e ?s1"
    using assms(1,2,3,5) by (rule register_starts)
  have "registrationPromise (run_registration e ?s1) = Some (RejectedWith ?err)"
    using assms(4,6) by (subst run_all_failures) (simp_all add: sent_append)
  then show ?thesis
    unfolding start by (simp add: awaitRegistration_def)
qed

lemma register_accepted_at_once:
  assumes "isInIframe e" and "\<not> isRegistered s" and "registrationPromise s = None"
      and "postRobot s \<or> importOk e"
      and "transport e (length (sent (trace s))) = Resolved d"
  shows "fst (register e config s) = Inr True"
    and "sent (trace (snd (register e config s))) = sent (trace s) @ [registerMessage e config]"
    and "isRegistered (snd (register e config s))"
    and "postRobot (snd (register e config s))"
proof -
  let ?s1 = "s\<lparr>postRobot := True, trace := trace s @ [Sent (registerMessage e config)],
               registrationPromise := Some (Pending AwaitingReply config)\<rparr>"
  have start: "register e config s = awaitRegistration e ?s1"
    using assms(1-4) by (rule register_starts)
  have "run_registration e ?s1 = run_registration e (resume e ?s1)"
    by (rule run_pending) simp
  moreover have resumed: "resume e ?s1 =
      (snd (afterReply e config (Resolved d) ?s1))\<lparr>registrationPromise := Some Fulfilled\<rparr>"
    using assms(5) by (simp add: resume_AwaitingReply afterReply_Resolved sent_append)
  moreover have "run_registration e (resume e ?s1) = resume e ?s1"
    unfolding resumed by (rule run_settled) simp
  ultimately have run: "run_registration e ?s1 =
      (snd (afterReply e config (Resolved d) ?s1))\<lparr>registrationPromise := Some Fulfilled\<rparr>"
    by simp
  show "fst (register e config s) = Inr True"
    unfolding start by (simp add: awaitRegistration_def run afterReply_Resolved)
  show "sent (trace (snd (register e config s))) = sent (trace s) @ [registerMessage e config]"
    unfolding start
    by (simp add: snd_awaitRegistration run afterReply_Resolved sent_append sent_Called_map
          split: option.split)
  show "isRegistered (snd (register e config s))"
    unfolding start by (simp add: snd_awaitRegistration run afterReply_Resolved)
  show "postRobot (snd (register e config s))"
    unfolding start by (simp add: snd_awaitRegistration run afterReply_Resolved)
qed

section \<open>Retries, terminal failure and single flight\<close>

text \<open>
  C5. A session on which no registration has been started, inside a frame, whose
  library is loaded or loads; the transport rejects the first three \<open>register\<close>
  messages and accepts the fourth. Then one call of \<open>register\<close> returns \<open>true\<close>, the
  session is ready, and exactly four messages were handed to the transport by the
  call, each the \<open>register\<close> message.
\<close>

theorem register_succeeds_on_fourth_attempt:
  assumes "isInIframe e"
      and "\<not> isRegistered s" and "registrationPromise s = None" and "registrationAttempts s = 0"
      and "postRobot s \<or> importOk e"
      and "\<forall>i<3. \<exists>f. transport e (length (sent (trace s)) + i) = Rejected f"
      and "\<exists>d. transport e (length (sent (trace s)) + 3) = Resolved d"
  shows "fst (register e config s) = Inr True
       \<and> sent (trace (snd (register e config s)))
           = sent (trace s) @ replicate 4 (registerMessage e config)
       \<and> isReady (snd (register e config s))"
proof -
  let ?msg = "registerMessage e config"
  let ?s0 = "s\<lparr>postRobot := True, trace := trace s @ [Sent ?msg],
               registrationPromise := Some (Pending AwaitingReply config)\<rparr>"
  obtain d where d: "transport e (length (sent (trace s)) + 3) = Resolved d"
    using assms(7) by blast
  have start: "register e config s = awaitRegistration e ?s0"
    using assms(1,2,3,5) by (rule register_starts)
  have "registrationPromise (run_registration e ?s0) = Some Fulfilled
      \<and> isRegistered (run_registration e ?s0)
      \<and> sent (trace (run_registration e ?s0)) = sent (trace ?s0) @ replicate 3 ?msg"
  proof (rule run_failures_then_success)
    show "registrationAttempts ?s0 + 3 \<le> maxRegistrationAttempts"
      using assms(4) by (simp add: maxRegistrationAttempts_def)
    show "\<exists>f. transport e (length (sent (trace ?s0)) - 1 + i) = Rejected f" if "i < 3" for i
      using assms(6) that by (simp add: sent_append)
    show "transport e (length (sent (trace ?s0)) - 1 + 3) = Resolved d"
      using d by (simp add: sent_append)
  qed (simp_all add: sent_append)
  then show ?thesis
    unfolding start
    by (simp add: awaitRegistration_def isReady_def sent_append replicate_append_same
          numeral_Bit0 numeral_3_eq_3)
qed

theorem register_succeeds_on_fourth_attempt_witness:
  "isInIframe (frameEnv acceptFourth)
   \<and> fst (register (frameEnv acceptFourth) None (new_BullhornBridge (frameEnv acceptFourth) None))
       = Inr True
   \<and> sent (trace (snd (register (frameEnv acceptFourth) None
                          (new_BullhornBridge (frameEnv acceptFourth) None))))
       = replicate 4 (registerMessage (frameEnv acceptFourth) None)
   \<and> isReady (snd (register (frameEnv acceptFourth) None
                      (new_BullhornBridge (frameEnv acceptFourth) None)))"
  using register_succeeds_on_fourth_attempt
          [of "frameEnv acceptFourth" "new_BullhornBridge (frameEnv acceptFourth) None" None]
  by (simp add: isInIframe_def new_BullhornBridge_fields)

text \<open>
  C7. Once a call of \<open>register\<close> has failed on a session, a later call of \<open>register\<close>
  on that session inside a frame, with whatever argument and whatever the transport
  would answer by then, fails with the same error and leaves the session as it was:
  the attempt count is not reset, no attempt is started and no message is sent. As
  the session is unchanged, the same holds for every call after that one.
\<close>

theorem register_after_failure_fails_again:
  assumes "register e config s = (Inl err, s')" and "isInIframe e'"
  shows "register e' config' s' = (Inl err, s')"
proof -
  have inframe: "isInIframe e" and unreg: "\<not> isRegistered s"
    using assms by (auto simp add: register_def split: if_splits)
  define s0 where "s0 =
    (if registrationPromise s \<noteq> None then s
     else (case performRegistration e config s of
             (p, s1) \<Rightarrow> s1\<lparr>registrationPromise := Some p\<rparr>))"
  have s0: "register e config s = awaitRegistration e s0" "\<not> isRegistered s0"
    using inframe unreg
    by (simp_all add: s0_def register_def performRegistration_def sendRegister_def)
  with assms have await: "awaitRegistration e s0 = (Inl err, s')"
    by simp
  then have s': "s' = run_registration e s0"
    using snd_awaitRegistration [of e s0] by simp
  from await have rejected: "registrationPromise s' = Some (RejectedWith err)"
    unfolding s' by (auto simp add: awaitRegistration_def Let_def split: option.splits promise.splits)
  then have "\<not> isRegistered s'"
    unfolding s' using s0(2) by (rule run_rejected_unregistered)
  with assms(2) rejected show ?thesis
    by (simp add: register_def awaitRegistration_settled)
qed

theorem register_after_failure_fails_again_witness:
  "register (frameEnv rejectAll)
     (Some \<lparr>title = Some ''Second try'', color = None, url = None\<rparr>)
     (snd (register (frameEnv rejectAll) None (new_BullhornBridge (frameEnv rejectAll) None)))
   = (Inl (Error ''Failed to register with Bullhorn after maximum attempts''),
      snd (register (frameEnv rejectAll) None (new_BullhornBridge (frameEnv rejectAll) None)))"
proof -
  let ?e = "frameEnv rejectAll"
  let ?s = "new_BullhornBridge ?e None"
  have "fst (register ?e None ?s)
        = Inl (Error ''Failed to register with Bullhorn after maximum attempts'')"
    by (rule register_all_rejected) (simp_all add: isInIframe_def new_BullhornBridge_fields)
  then have "register ?e None ?s
        = (Inl (Error ''Failed to register with Bullhorn after maximum attempts''),
           snd (register ?e None ?s))"
    by (simp add: prod_eq_iff)
  then show ?thesis
    by (rule register_after_failure_fails_again) (simp add: isInIframe_def)
qed

text \<open>
  C1. Single flight. A first call of \<open>register\<close> starts the handshake on a session
  inside a frame that is not registered; any number of further calls arrive in
  bursts while the handshake is pending, one burst before each turn of the event
  loop, and the rest after the promise is settled. Then the session ends exactly as
  after the first call alone, so the further calls caused no transport message at
  all; no call is left waiting; and every call has returned what the first call
  alone returns. When the library is loaded or loads and the transport accepts the
  first \<open>register\<close> message, exactly one message was sent.
\<close>

theorem register_single_flight:
  assumes "isInIframe e" and "\<not> isRegistered s" and "registrationPromise s = None"
  shows "sess (event_loop e bursts
                (call_register e c0 \<lparr>sess = s, waiting = [], returned = []\<rparr>))
           = snd (register e (snd c0) s)
       \<and> waiting (event_loop e bursts
                (call_register e c0 \<lparr>sess = s, waiting = [], returned = []\<rparr>)) = []
       \<and> returned (event_loop e bursts
                (call_register e c0 \<lparr>sess = s, waiting = [], returned = []\<rparr>))
           = map (\<lambda>c. (fst c, fst (register e (snd c0) s))) (c0 # concat bursts)
       \<and> ((postRobot s \<or> importOk e)
            \<and> (\<exists>d. transport e (length (sent (trace s))) = Resolved d)
          \<longrightarrow> sent (trace (sess (event_loop e bursts
                  (call_register e c0 \<lparr>sess = s, waiting = [], returned = []\<rparr>))))
                = sent (trace s) @ [registerMessage e (snd c0)])"
proof -
  have "sent (trace (snd (register e (snd c0) s)))
          = sent (trace s) @ [registerMessage e (snd c0)]"
    if "postRobot s \<or> importOk e" and "transport e (length (sent (trace s))) = Resolved d"
    for d
    using assms that by (rule register_accepted_at_once(2))
  then show ?thesis
    using callers_share_one_registration [OF assms, of bursts c0] by auto
qed

theorem register_single_flight_witness:
  "returned (event_loop (frameEnv acceptAll)
        [[(1, None), (2, Some \<lparr>title = Some ''Other'', color = None, url = None\<rparr>)], [(3, None)]]
        (call_register (frameEnv acceptAll) (0, None)
           \<lparr>sess = new_BullhornBridge (frameEnv acceptAll) None, waiting = [], returned = []\<rparr>))
     = [(0, Inr True), (1, Inr True), (2, Inr True), (3, Inr True)]
   \<and> sent (trace (sess (event_loop (frameEnv acceptAll)
        [[(1, None), (2, Some \<lparr>title = Some ''Other'', color = None, url = None\<rparr>)], [(3, None)]]
        (call_register (frameEnv acceptAll) (0, None)
           \<lparr>sess = new_BullhornBridge (frameEnv acceptAll) None, waiting = [], returned = []\<rparr>))))
     = [registerMessage (frameEnv acceptAll) None]"
proof -
  let ?e = "frameEnv acceptAll"
  let ?init = "new_BullhornBridge ?e None"
  have inframe: "isInIframe ?e"
    by (simp add: isInIframe_def)
  have fresh: "\<not> isRegistered ?init" "registrationPromise ?init = None"
    by (simp_all add: new_BullhornBridge_fields)
  have accepted: "fst (register ?e None ?init) = Inr True"
    using inframe fresh
    by (rule register_accepted_at_once) simp_all
  have loads: "(postRobot ?init \<or> importOk ?e)
      \<and> (\<exists>d. transport ?e (length (sent (trace ?init))) = Resolved d)"
    by simp
  from register_single_flight [OF inframe fresh,
      of "[[(1, None), (2, Some \<lparr>title = Some ''Other'', color = None, url = None\<rparr>)], [(3, None)]]"
         "(0, None)"]
  have "returned (event_loop ?e
        [[(1, None), (2, Some \<lparr>title = Some ''Other'', color = None, url = None\<rparr>)], [(3, None)]]
        (call_register ?e (0, None) \<lparr>sess = ?init, waiting = [], returned = []\<rparr>))
      = map (\<lambda>c. (fst c, fst (register ?e None ?init)))
          [(0, None), (1, None),
           (2, Some \<lparr>title = Some ''Other'', color = None, url = None\<rparr>), (3, None)]"
    and "sent (trace (sess (event_loop ?e
        [[(1, None), (2, Some \<lparr>title = Some ''Other'', color = None, url = None\<rparr>)], [(3, None)]]
        (call_register ?e (0, None) \<lparr>sess = ?init, waiting = [], returned = []\<rparr>))))
      = sent (trace ?init) @ [registerMessage ?e None]"
    using loads by (elim conjE, simp)+
  then show ?thesis
    using accepted by (simp add: new_BullhornBridge_fields)
qed

text \<open>
  C4. Terminal failure. On a session inside a frame on which no registration has
  been started, with the library loaded or loading, let every \<open>register\<close> message be
  rejected. Whatever calls of \<open>register\<close> arrive after the first one, the session
  then sent the message five times, called the \<open>onError\<close> callback once if there is
  one, emitted \<open>error\<close> once and called each \<open>error\<close> listener once, in this order and
  nothing else; every call of \<open>register\<close> was rejected with the error
  \<open>Failed to register with Bullhorn after maximum attempts\<close>; and the session is
  not ready.
\<close>

theorem register_terminal_failure:
  assumes "isInIframe e"
      and "\<not> isRegistered s" and "registrationPromise s = None" and "registrationAttempts s = 0"
      and "postRobot s \<or> importOk e"
      and "\<forall>k. \<exists>f. transport e k = Rejected f"
  shows "trace (sess (event_loop e bursts
                (call_register e c0 \<lparr>sess = s, waiting = [], returned = []\<rparr>)))
           = trace s
             @ replicate 5 (Sent (registerMessage e (snd c0)))
             @ (case onErrorCallback s of None \<Rightarrow> []
                | Some cb \<Rightarrow> [Called cb (ErrData (Error ''Failed to register with Bullhorn after maximum attempts''))])
             @ Emitted ''error'' (ErrData (Error ''Failed to register with Bullhorn after maximum attempts''))
             # map (\<lambda>cb. Called cb (ErrData (Error ''Failed to register with Bullhorn after maximum attempts'')))
                 (case eventListeners s ''error'' of None \<Rightarrow> [] | Some l \<Rightarrow> l)
       \<and> emissions ''error'' (trace (sess (event_loop e bursts
                (call_register e c0 \<lparr>sess = s, waiting = [], returned = []\<rparr>))))
           = emissions ''error'' (trace s)
             @ [ErrData (Error ''Failed to register with Bullhorn after maximum attempts'')]
       \<and> waiting (event_loop e bursts
                (call_register e c0 \<lparr>sess = s, waiting = [], returned = []\<rparr>)) = []
       \<and> returned (event_loop e bursts
                (call_register e c0 \<lparr>sess = s, waiting = [], returned = []\<rparr>))
           = map (\<lambda>c. (fst c, Inl (Error ''Failed to register with Bullhorn after maximum attempts'')))
               (c0 # concat bursts)
       \<and> \<not> isReady (sess (event_loop e bursts
                (call_register e c0 \<lparr>sess = s, waiting = [], returned = []\<rparr>)))"
proof -
  let ?err = "Error ''Failed to register with Bullhorn after maximum attempts''"
  let ?m = "event_loop e bursts (call_register e c0 \<lparr>sess = s, waiting = [], returned = []\<rparr>)"
  let ?msg = "registerMessage e (snd c0)"
  let ?s1 = "s\<lparr>postRobot := True, trace := trace s @ [Sent ?msg],
               registrationPromise := Some (Pending AwaitingReply (snd c0))\<rparr>"
  have start: "register e (snd c0) s = awaitRegistration e ?s1"
    using assms(1,2,3,5) by (rule register_starts)
  have run: "run_registration e ?s1 =
         ?s1\<lparr>registrationAttempts := maxRegistrationAttempts,
           trace := trace ?s1
             @ replicate (maxRegistrationAttempts - registrationAttempts ?s1) (Sent ?msg)
             @ (case onErrorCallback ?s1 of None \<Rightarrow> [] | Some cb \<Rightarrow> [Called cb (ErrData ?err)])
             @ Emitted ''error'' (ErrData ?err)
             # map (\<lambda>cb. Called cb (ErrData ?err))
                 (case eventListeners ?s1 ''error'' of None \<Rightarrow> [] | Some l \<Rightarrow> l),
           registrationPromise := Some (RejectedWith ?err)\<rparr>"
    using assms(4,6) by (intro run_all_failures) (simp_all add: sent_append)
  have final: "snd (register e (snd c0) s) = run_registration e ?s1"
      "fst (register e (snd c0) s) = Inl ?err"
    unfolding start by (simp_all add: awaitRegistration_def run)
  have emitted: "emissions ''error'' (xs @ ys) = emissions ''error'' xs @ emissions ''error'' ys"
    for xs ys
    by (simp add: emissions_def)
  have quiet_sent: "emissions ''error'' (replicate n (Sent m)) = []" for n m
    by (induction n) (simp_all add: emissions_def)
  have quiet_called: "emissions ''error'' (map (\<lambda>cb. Called cb d) ls) = []" for d ls
    by (induction ls) (simp_all add: emissions_def)
  note quiet = quiet_sent quiet_called
  note single = callers_share_one_registration [OF assms(1-3), of bursts c0]
  have "sess ?m = run_registration e ?s1"
    using single final(1) by simp
  moreover have "waiting ?m = []"
    using single by simp
  moreover have "returned ?m = map (\<lambda>c. (fst c, Inl ?err)) (c0 # concat bursts)"
    using single final(2) by simp
  ultimately show ?thesis
    using assms(2,4)
    by (simp add: run isReady_def maxRegistrationAttempts_def emitted quiet emissions_def
          eval_nat_numeral split: option.split)
qed

theorem register_terminal_failure_witness:
  "trace (sess (event_loop (frameEnv rejectAll) [[(1, None)], [], [(2, None)]]
        (call_register (frameEnv rejectAll) (0, None)
           \<lparr>sess = on ''error'' 9 (new_BullhornBridge (frameEnv rejectAll)
                      (Some \<lparr>cfg_debug = None, cfg_onReady = None, cfg_onError = Some 7,
                             cfg_allowedOrigins = None\<rparr>)),
            waiting = [], returned = []\<rparr>)))
     = replicate 5 (Sent (registerMessage (frameEnv rejectAll) None))
       @ [Called 7 (ErrData (Error ''Failed to register with Bullhorn after maximum attempts'')),
          Emitted ''error'' (ErrData (Error ''Failed to register with Bullhorn after maximum attempts'')),
          Called 9 (ErrData (Error ''Failed to register with Bullhorn after maximum attempts''))]
   \<and> returned (event_loop (frameEnv rejectAll) [[(1, None)], [], [(2, None)]]
        (call_register (frameEnv rejectAll) (0, None)
           \<lparr>sess = on ''error'' 9 (new_BullhornBridge (frameEnv rejectAll)
                      (Some \<lparr>cfg_debug = None, cfg_onReady = None, cfg_onError = Some 7,
                             cfg_allowedOrigins = None\<rparr>)),
            waiting = [], returned = []\<rparr>))
     = [(0, Inl (Error ''Failed to register with Bullhorn after maximum attempts'')),
        (1, Inl (Error ''Failed to register with Bullhorn after maximum attempts'')),
        (2, Inl (Error ''Failed to register with Bullhorn after maximum attempts''))]"
  using register_terminal_failure [of "frameEnv rejectAll"
      "on ''error'' 9 (new_BullhornBridge (frameEnv rejectAll)
                      (Some \<lparr>cfg_debug = None, cfg_onReady = None, cfg_onError = Some 7,
                             cfg_allowedOrigins = None\<rparr>))"
      "[[(1, None)], [], [(2, None)]]" "(0, None)"]
  by (simp add: isInIframe_def on_def new_BullhornBridge_fields)

section \<open>Calls through the request gateway\<close>

text \<open>\<open>str_includes\<close> is the substring test.\<close>

lemma str_includes_iff: "str_includes s sub \<longleftrightarrow> (\<exists>p q. s = p @ sub @ q)"
proof (induction s)
  case Nil
  then show ?case by simp
next
  case (Cons c cs)
  have "(\<exists>p q. c # cs = p @ sub @ q) \<longleftrightarrow> prefix sub (c # cs) \<or> (\<exists>p q. cs = p @ sub @ q)"
  proof
    assume "\<exists>p q. c # cs = p @ sub @ q"
    then obtain p q where pq: "c # cs = p @ sub @ q" by blast
    show "prefix sub (c # cs) \<or> (\<exists>p q. cs = p @ sub @ q)"
    proof (cases p)
      case Nil
      with pq show ?thesis by (auto simp add: prefix_def)
    next
      case (Cons a p')
      with pq show ?thesis by auto
    qed
  next
    assume "prefix sub (c # cs) \<or> (\<exists>p q. cs = p @ sub @ q)"
    then show "\<exists>p q. c # cs = p @ sub @ q"
    proof
      assume "prefix sub (c # cs)"
      then obtain q where "c # cs = sub @ q" by (auto simp add: prefix_def)
      then have "c # cs = [] @ sub @ q" by simp
      then show ?thesis by blast
    next
      assume "\<exists>p q. cs = p @ sub @ q"
      then obtain p q where "cs = p @ sub @ q" by blast
      then have "c # cs = (c # p) @ sub @ q" by simp
      then show ?thesis by blast
    qed
  qed
  with Cons show ?case by simp
qed

lemma run_registered_loaded:
  assumes "\<not> isRegistered s"
      and "\<And>c. registrationPromise s = Some (Pending AwaitingReply c) \<Longrightarrow> postRobot s"
      and "isRegistered (run_registration e s)"
  shows "postRobot (run_registration e s)"
  using assms
proof (induction "remaining s" arbitrary: s rule: less_induct)
  case less
  show ?case
  proof (cases "\<exists>ph config. registrationPromise s = Some (Pending ph config)")
    case False
    then have "run_registration e s = s"
      by (subst run_registration.simps) (auto split: option.split promise.split)
    with less.prems show ?thesis by simp
  next
    case True
    then obtain ph config where pending: "registrationPromise s = Some (Pending ph config)"
      by blast
    then have run: "run_registration e s = run_registration e (resume e s)"
      by (rule run_pending)
    have smaller: "remaining (resume e s) < remaining s"
      using pending by (rule remaining_resume)
    have loaded: "postRobot (resume e s)"
      if "registrationPromise (resume e s) = Some (Pending AwaitingReply c)" for c
      using that pending less.prems(2)
      by (cases ph; cases "transport e (length (sent (trace s)) - 1)")
         (auto simp add: resume_Importing resume_Backoff resume_AwaitingReply
            afterReply_Rejected afterReply_Resolved split: if_splits)
    from resume_cases [OF pending less.prems(1), of e] show ?thesis
    proof (elim disjE exE conjE)
      fix ph' assume "registrationPromise (resume e s) = Some (Pending ph' config)"
        and "\<not> isRegistered (resume e s)"
      then show ?thesis
        using less.hyps [OF smaller] loaded less.prems(3) run by simp
    next
      assume fulfilled: "registrationPromise (resume e s) = Some Fulfilled"
      then have "ph = AwaitingReply"
        using pending
        by (cases ph) (auto simp add: resume_Importing resume_Backoff split: if_splits)
      then have "postRobot s"
        using pending less.prems(2) by simp
      then have "postRobot (resume e s)"
        using pending \<open>ph = AwaitingReply\<close>
        by (cases "transport e (length (sent (trace s)) - 1)")
           (simp_all add: resume_AwaitingReply afterReply_Rejected afterReply_Resolved)
      then show ?thesis
        using run fulfilled by (simp add: run_settled)
    next
      fix err assume "registrationPromise (resume e s) = Some (RejectedWith err)"
        and "\<not> isRegistered (resume e s)"
      then show ?thesis
        using run less.prems(3) by (simp add: run_settled)
    qed
  qed
qed

lemma register_success_ready:
  assumes "\<not> isRegistered s0" and "registrationPromise s0 = None"
      and "register e config s0 = (Inr True, s)"
  shows "isInIframe e" and "isRegistered s" and "postRobot s"
proof -
  show inframe: "isInIframe e"
    using assms by (auto simp add: register_def split: if_splits)
  define s1 where "s1 = (case performRegistration e config s0 of
                           (p, s') \<Rightarrow> s'\<lparr>registrationPromise := Some p\<rparr>)"
  have await: "awaitRegistration e s1 = (Inr True, s)"
    using assms inframe by (simp add: register_def s1_def split: prod.splits)
  then have s: "s = run_registration e s1"
    using snd_awaitRegistration [of e s1] by simp
  from await show registered: "isRegistered s"
    unfolding s by (auto simp add: awaitRegistration_def Let_def split: option.splits promise.splits)
  have "\<not> isRegistered s1"
    using assms(1) by (simp add: s1_def performRegistration_def sendRegister_def)
  moreover have "postRobot s1" if "registrationPromise s1 = Some (Pending AwaitingReply c)" for c
    using that by (simp add: s1_def performRegistration_def sendRegister_def split: if_splits)
  ultimately show "postRobot s"
    using registered unfolding s by (intro run_registered_loaded)
qed

lemma ensureRegistered_ready:
  "isInIframe e \<Longrightarrow> isRegistered s \<Longrightarrow> ensureRegistered e s = (Inr (), s)"
  by (simp add: ensureRegistered_def)

lemma resume_allowedOrigins: "allowedOrigins (resume e s) = allowedOrigins s"
proof (cases "registrationPromise s")
  case None
  then show ?thesis by (simp add: resume_def)
next
  case (Some p)
  show ?thesis
  proof (cases p)
    case (Pending ph config)
    with Some show ?thesis
      by (cases ph; cases "transport e (length (sent (trace s)) - 1)")
         (simp_all add: resume_Importing resume_Backoff resume_AwaitingReply
            afterReply_Rejected afterReply_Resolved)
  qed (use Some in \<open>simp_all add: resume_def\<close>)
qed

lemma run_allowedOrigins: "allowedOrigins (run_registration e s) = allowedOrigins s"
proof (induction e s rule: run_registration.induct)
  case (1 e s)
  show ?case
  proof (cases "\<exists>ph config. registrationPromise s = Some (Pending ph config)")
    case False
    then have "run_registration e s = s"
      by (subst run_registration.simps) (auto split: option.split promise.split)
    then show ?thesis by simp
  next
    case True
    then obtain ph config where pending: "registrationPromise s = Some (Pending ph config)"
      by blast
    then show ?thesis
      using 1 [OF pending refl] by (simp add: run_pending resume_allowedOrigins)
  qed
qed

lemma register_allowedOrigins:
  "allowedOrigins (snd (register e config s)) = allowedOrigins s"
  by (simp add: register_def snd_awaitRegistration run_allowedOrigins
        performRegistration_def sendRegister_def)

text \<open>
  C6. After a successful registration, that is on the session \<open>s\<close> left by a call of
  \<open>register\<close> that returned \<open>true\<close> on a session with no registration before it,
  \<open>httpGET('/entity/Candidate/123')\<close> hands exactly one message to the transport, named
  \<open>httpGET\<close>, with payload \<open>{relativeURL: '/entity/Candidate/123'}\<close> and a timeout of
  10000 ms, and when the transport resolves it returns the \<open>data\<close> of the reply.
\<close>

theorem httpGET_after_registration:
  assumes "\<not> isRegistered s0" and "registrationPromise s0 = None"
      and "register e config s0 = (Inr True, s)"
      and "transport e (length (sent (trace s))) = Resolved d"
  shows "httpGET e ''/entity/Candidate/123'' s =
           (Inr d,
            s\<lparr>trace := trace s @
                 [Sent \<lparr> msg_name = ''httpGET'',
                         msg_payload = JObj [(''relativeURL'', JStr ''/entity/Candidate/123'')],
                         msg_timeout = 10000,
                         msg_domain = Some (allowedOrigins s) \<rparr>]\<rparr>)"
proof -
  note ready = register_success_ready [OF assms(1-3)]
  have "validateRelativeUrl ''/entity/Candidate/123''"
    by (simp add: validateRelativeUrl_def startsWith_def MAX_URL_LENGTH_def allowedPrefixes_def)
  then show ?thesis
    using ready assms(4)
    by (simp add: httpGET_def ensureRegistered_ready sendToParent_def)
qed

theorem httpGET_after_registration_witness:
  "fst (httpGET (frameEnv candidateReply) ''/entity/Candidate/123''
          (snd (register (frameEnv candidateReply) None
                  (new_BullhornBridge (frameEnv candidateReply) None))))
     = Inr (JObj [(''data'', JObj [(''id'', JNum 123)]), (''error'', JNull)])
   \<and> sent (trace (snd (httpGET (frameEnv candidateReply) ''/entity/Candidate/123''
          (snd (register (frameEnv candidateReply) None
                  (new_BullhornBridge (frameEnv candidateReply) None))))))
     = [registerMessage (frameEnv candidateReply) None,
        \<lparr> msg_name = ''httpGET'',
          msg_payload = JObj [(''relativeURL'', JStr ''/entity/Candidate/123'')],
          msg_timeout = 10000, msg_domain = Some defaultOrigins \<rparr>]"
proof -
  let ?e = "frameEnv candidateReply"
  let ?init = "new_BullhornBridge ?e None"
  let ?s = "snd (register ?e None ?init)"
  have accepted: "fst (register ?e None ?init) = Inr True"
      "sent (trace ?s) = sent (trace ?init) @ [registerMessage ?e None]"
    by (rule register_accepted_at_once [where d = "JObj [(''success'', JBool True)]"];
        simp add: isInIframe_def new_BullhornBridge_fields)+
  have origins: "allowedOrigins ?s = defaultOrigins"
    by (simp add: register_allowedOrigins new_BullhornBridge_def
          extractCredentialsFromUrl_def Let_def)
  have "register ?e None ?init = (Inr True, ?s)"
    using accepted(1) by (simp add: prod_eq_iff)
  from httpGET_after_registration [OF _ _ this, of "JObj [(''data'', JObj [(''id'', JNum 123)]), (''error'', JNull)]"]
  show ?thesis
    using accepted(2) origins
    by (simp add: new_BullhornBridge_fields sent_append)
qed

lemma httpMessages_append: "httpMessages (xs @ ys) = httpMessages xs @ httpMessages ys"
  by (simp add: httpMessages_def sent_append)

lemma httpMessages_quiet:
  "httpMessages [Sent (registerMessage e config)] = []"
  "httpMessages [Subscribed ch origins] = []"
  "httpMessages [Called cb d] = []"
  "httpMessages (Emitted ev d # tr) = httpMessages tr"
  "httpMessages (Subscribed ch origins # tr) = httpMessages tr"
  "httpMessages (map (\<lambda>cb. Called cb d) ls) = []"
  "httpMessages [] = []"
  by (simp_all add: httpMessages_def registerMessage_def httpVerbNames_def sent_Called_map)

lemma resume_httpMessages: "httpMessages (trace (resume e s)) = httpMessages (trace s)"
proof (cases "registrationPromise s")
  case None
  then show ?thesis by (simp add: resume_def)
next
  case (Some p)
  show ?thesis
  proof (cases p)
    case (Pending ph config)
    with Some show ?thesis
      by (cases ph; cases "transport e (length (sent (trace s)) - 1)")
         (simp_all add: resume_Importing resume_Backoff resume_AwaitingReply
            afterReply_Rejected afterReply_Resolved httpMessages_append httpMessages_quiet
            split: option.split)
  qed (use Some in \<open>simp_all add: resume_def\<close>)
qed

lemma run_httpMessages:
  "httpMessages (trace (run_registration e s)) = httpMessages (trace s)"
proof (induction e s rule: run_registration.induct)
  case (1 e s)
  show ?case
  proof (cases "\<exists>ph config. registrationPromise s = Some (Pending ph config)")
    case False
    then have "run_registration e s = s"
      by (subst run_registration.simps) (auto split: option.split promise.split)
    then show ?thesis by simp
  next
    case True
    then obtain ph config where pending: "registrationPromise s = Some (Pending ph config)"
      by blast
    then show ?thesis
      using 1 [OF pending refl] by (simp add: run_pending resume_httpMessages)
  qed
qed

lemma register_httpMessages:
  "httpMessages (trace (snd (register e config s))) = httpMessages (trace s)"
  by (simp add: register_def snd_awaitRegistration run_httpMessages
        performRegistration_def sendRegister_def httpMessages_append httpMessages_quiet)

lemma ensureRegistered_httpMessages:
  "httpMessages (trace (snd (ensureRegistered e s))) = httpMessages (trace s)"
proof -
  have "snd (ensureRegistered e s) = s \<or> snd (ensureRegistered e s) = snd (register e None s)"
    by (simp add: ensureRegistered_def Let_def split: prod.split sum.split)
  then show ?thesis
    using register_httpMessages [of e None s] by auto
qed

lemma invalid_url_in_words:
  "(\<not> startsWith u ''/'' \<or> str_includes u ''..'' \<or> str_includes u ''//''
     \<or> 2000 < length u
     \<or> \<not> list_ex (startsWith u)
           [''/entity/'', ''/query/'', ''/search/'', ''/meta/'', ''/services/'', ''/find/''])
   = (\<not> validateRelativeUrl u)"
  by (auto simp add: validateRelativeUrl_def MAX_URL_LENGTH_def allowedPrefixes_def)

lemma perform_invalid_url:
  assumes "\<not> validateRelativeUrl (relativeURL_of call)"
  shows "perform e call s =
         (case fst (ensureRegistered e s) of
            Inl err \<Rightarrow> Inl err
          | Inr u \<Rightarrow> Inl (Error ''Invalid or unauthorized URL''),
          snd (ensureRegistered e s))"
  using assms
  by (cases call; cases "ensureRegistered e s"; cases "fst (ensureRegistered e s)")
     (simp_all add: httpGET_def httpPOST_def httpPUT_def httpDELETE_def)

text \<open>
  C3, as claimed: every URL-bearing call with an invalid relative URL fails with
  \<open>Invalid or unauthorized URL\<close>. It does not on a session that does not pass the
  registration gate, which comes first: outside a frame \<open>httpGET('../../../etc/passwd')\<close>
  fails with \<open>Not running in an iframe\<close>, and inside a frame whose parent rejects the
  handshake it fails with the error of the registration.
\<close>

theorem invalid_url_behind_the_gate:
  "fst (httpGET topEnv ''../../../etc/passwd'' (new_BullhornBridge topEnv None))
     = Inl (Error ''Not running in an iframe'')
   \<and> fst (httpGET (frameEnv rejectAll) ''../../../etc/passwd''
            (new_BullhornBridge (frameEnv rejectAll) None))
     = Inl (Error ''Failed to register with Bullhorn after maximum attempts'')"
proof -
  let ?e = "frameEnv rejectAll"
  have "fst (register ?e None (new_BullhornBridge ?e None))
        = Inl (Error ''Failed to register with Bullhorn after maximum attempts'')"
    by (rule register_all_rejected) (simp_all add: isInIframe_def new_BullhornBridge_fields)
  then have "fst (httpGET ?e ''../../../etc/passwd'' (new_BullhornBridge ?e None))
     = Inl (Error ''Failed to register with Bullhorn after maximum attempts'')"
    by (cases "register ?e None (new_BullhornBridge ?e None)")
       (simp add: httpGET_def ensureRegistered_def isInIframe_def new_BullhornBridge_fields)
  moreover have "fst (httpGET topEnv ''../../../etc/passwd'' (new_BullhornBridge topEnv None))
     = Inl (Error ''Not running in an iframe'')"
    by (simp add: httpGET_def ensureRegistered_def isInIframe_def)
  ultimately show ?thesis
    by simp
qed

text \<open>
  C3, amended. A URL-bearing call (\<open>httpGET\<close>, \<open>httpPOST\<close>, \<open>httpPUT\<close>, \<open>httpDELETE\<close>) whose
  relative URL does not start with \<open>/\<close>, or contains \<open>..\<close> or \<open>//\<close>, or is longer than 2000
  characters, or starts with none of the six allowed prefixes, always fails, does
  nothing beyond what the registration gate does, and adds no HTTP-verb message to the
  messages of the session. It fails with the error of the gate when the gate fails,
  and with \<open>Invalid or unauthorized URL\<close> when the gate lets it pass; on a registered
  session inside a frame it fails with that error and leaves the session untouched.
\<close>

theorem invalid_url_never_reaches_transport:
  assumes "\<not> startsWith (relativeURL_of call) ''/''
         \<or> str_includes (relativeURL_of call) ''..''
         \<or> str_includes (relativeURL_of call) ''//''
         \<or> 2000 < length (relativeURL_of call)
         \<or> \<not> list_ex (startsWith (relativeURL_of call))
               [''/entity/'', ''/query/'', ''/search/'', ''/meta/'', ''/services/'', ''/find/'']"
  shows "fst (perform e call s) =
           (case fst (ensureRegistered e s) of
              Inl err \<Rightarrow> Inl err
            | Inr u \<Rightarrow> Inl (Error ''Invalid or unauthorized URL''))
       \<and> snd (perform e call s) = snd (ensureRegistered e s)
       \<and> httpMessages (trace (snd (perform e call s))) = httpMessages (trace s)
       \<and> (isInIframe e \<and> isRegistered s
            \<longrightarrow> perform e call s = (Inl (Error ''Invalid or unauthorized URL''), s))"
proof -
  have invalid: "\<not> validateRelativeUrl (relativeURL_of call)"
    using assms invalid_url_in_words [of "relativeURL_of call"] by blast
  note result = perform_invalid_url [OF invalid, of e s]
  show ?thesis
    unfolding result
    by (simp add: ensureRegistered_httpMessages ensureRegistered_ready)
qed

theorem invalid_url_never_reaches_transport_witness:
  "perform (frameEnv acceptAll) (POST ''/unauthorized/endpoint'' (JObj []))
     (snd (register (frameEnv acceptAll) None (new_BullhornBridge (frameEnv acceptAll) None)))
   = (Inl (Error ''Invalid or unauthorized URL''),
      snd (register (frameEnv acceptAll) None (new_BullhornBridge (frameEnv acceptAll) None)))"
proof -
  let ?e = "frameEnv acceptAll"
  let ?init = "new_BullhornBridge ?e None"
  have "isRegistered (snd (register ?e None ?init))"
    by (rule register_accepted_at_once [where d = "JObj [(''success'', JBool True)]"])
       (simp_all add: isInIframe_def new_BullhornBridge_fields)
  then show ?thesis
    using invalid_url_never_reaches_transport
            [of "POST ''/unauthorized/endpoint'' (JObj [])" ?e "snd (register ?e None ?init)"]
    by (simp add: isInIframe_def startsWith_def)
qed

end
